theory Spec2Isabelle
  imports Complex_Main "HOL-Library.Multiset" "HOL-Library.Sublist"
begin

section \<open>Python errors\<close>

text \<open>
  The exceptions that the modelled functions can raise. A function that may raise returns
  \<open>py_error + 'a\<close>, with \<open>Inl\<close> for the exception.
\<close>

datatype py_error = ValueError | IndexError | OverflowError | ZeroDivisionError | AttributeError

section \<open>Connection registry (backend/api/websocket.py)\<close>

text \<open>
  A \<open>WebSocket\<close> object is compared by identity, so a connection is modelled by a
  natural number naming the object. \<open>ConnectionManager\<close> has the single field
  \<open>active_connections\<close>, a Python list in registration order.
\<close>

type_synonym conn = nat

record ConnectionManager =
  active_connections :: "conn list"

text \<open>\<open>list.remove(x)\<close>: deletes the first element equal to \<open>x\<close>, raises
  \<open>ValueError\<close> when there is none.\<close>

fun list_remove :: "'a \<Rightarrow> 'a list \<Rightarrow> py_error + 'a list" where
  "list_remove x [] = Inl ValueError"
| "list_remove x (y # ys) =
     (if y = x then Inr ys
      else (case list_remove x ys of Inl e \<Rightarrow> Inl e | Inr zs \<Rightarrow> Inr (y # zs)))"

text \<open>\<open>ConnectionManager.disconnect\<close>:
  \<^verbatim>\<open>self.active_connections.remove(websocket)\<close>\<close>

definition disconnect :: "conn \<Rightarrow> ConnectionManager \<Rightarrow> py_error + ConnectionManager" where
  "disconnect websocket self =
     (case list_remove websocket (active_connections self) of
        Inl e \<Rightarrow> Inl e
      | Inr cs \<Rightarrow> Inr (self\<lparr>active_connections := cs\<rparr>))"

text \<open>
  \<open>connection.send_json(message)\<close> belongs to the web framework. It is a parameter of the
  model: a call either returns or raises an \<open>Exception\<close>, and in both cases leaves a new
  state \<open>'w\<close> of the world outside the registry (the channels, the peers' inboxes).
\<close>

datatype 'w send_result = Sent 'w | SendError 'w

type_synonym ('m, 'w) send_json = "conn \<Rightarrow> 'm \<Rightarrow> 'w \<Rightarrow> 'w send_result"

text \<open>
  The first loop of \<open>broadcast\<close>:
  \<^verbatim>\<open>
  disconnected = []
  for connection in self.active_connections:
      try:
          await connection.send_json(message)
      except Exception as e:
          print(f"Error sending to client: {e}")
          disconnected.append(connection)
  \<close>
  Besides \<open>disconnected\<close> and the world, the model returns the trace of the
  \<open>send_json\<close> calls made: the connection of each call, in call order, paired with
  \<open>True\<close> when the call returned and \<open>False\<close> when it raised.
\<close>

fun send_pass ::
  "('m, 'w) send_json \<Rightarrow> 'm \<Rightarrow> conn list \<Rightarrow> conn list \<Rightarrow> (conn \<times> bool) list \<Rightarrow> 'w
     \<Rightarrow> conn list \<times> (conn \<times> bool) list \<times> 'w" where
  "send_pass send message [] disconnected trace w = (disconnected, trace, w)"
| "send_pass send message (connection # rest) disconnected trace w =
     (case send connection message w of
        Sent w' \<Rightarrow> send_pass send message rest disconnected (trace @ [(connection, True)]) w'
      | SendError w' \<Rightarrow>
          send_pass send message rest (disconnected @ [connection])
            (trace @ [(connection, False)]) w')"

text \<open>
  The second loop of \<open>broadcast\<close>:
  \<^verbatim>\<open>
  for connection in disconnected:
      self.active_connections.remove(connection)
  \<close>
\<close>

fun cleanup :: "conn list \<Rightarrow> conn list \<Rightarrow> py_error + conn list" where
  "cleanup [] active = Inr active"
| "cleanup (connection # rest) active =
     (case list_remove connection active of
        Inl e \<Rightarrow> Inl e
      | Inr active' \<Rightarrow> cleanup rest active')"

text \<open>\<open>ConnectionManager.broadcast\<close>, run without interleaving of other coroutines. The
  result carries the updated registry, the world and the trace of the send calls.\<close>

definition broadcast ::
  "('m, 'w) send_json \<Rightarrow> 'm \<Rightarrow> ConnectionManager \<Rightarrow> 'w
     \<Rightarrow> py_error + (ConnectionManager \<times> 'w \<times> (conn \<times> bool) list)" where
  "broadcast send message self w =
     (case send_pass send message (active_connections self) [] [] w of
        (disconnected, trace, w') \<Rightarrow>
          (case cleanup disconnected (active_connections self) of
             Inl e \<Rightarrow> Inl e
           | Inr active' \<Rightarrow> Inr (self\<lparr>active_connections := active'\<rparr>, w', trace)))"

text \<open>The connections of a trace whose send raised, in call order.\<close>

definition raised :: "(conn \<times> bool) list \<Rightarrow> conn list" where
  "raised trace = map fst (filter (\<lambda>a. \<not> snd a) trace)"

text \<open>
  What one call of \<open>send_json\<close> did: whether it returned, and the world it left.
\<close>

fun sent :: "'w send_result \<Rightarrow> bool" where
  "sent (Sent v) = True"
| "sent (SendError v) = False"

fun world_of :: "'w send_result \<Rightarrow> 'w" where
  "world_of (Sent v) = v"
| "world_of (SendError v) = v"

text \<open>
  The world after \<open>send_json\<close> has been called on each connection of \<open>cs\<close> in turn, each
  call in the world that the call before left, whether that call returned or raised.
\<close>

definition world_after :: "('m, 'w) send_json \<Rightarrow> 'm \<Rightarrow> conn list \<Rightarrow> 'w \<Rightarrow> 'w" where
  "world_after send msg cs w = fold (\<lambda>c v. world_of (send c msg v)) cs w"

text \<open>
  The sends that a delivery pass over \<open>cs\<close> owes: one for every position \<open>i\<close>, on the
  connection at that position, in the world left by the sends to the positions before
  it; each is paired with whether \<open>send_json\<close> returns there.
\<close>

definition attempts ::
  "('m, 'w) send_json \<Rightarrow> 'm \<Rightarrow> conn list \<Rightarrow> 'w \<Rightarrow> (conn \<times> bool) list" where
  "attempts send msg cs w =
     map (\<lambda>i. (cs ! i, sent (send (cs ! i) msg (world_after send msg (take i cs) w))))
       [0..<length cs]"

text \<open>
  A test double for the channels, used to run scenarios: the world is the inbox of every
  connection, and the connections in \<open>bad\<close> raise on every send.
\<close>

definition faulty_send :: "conn set \<Rightarrow> ('m, conn \<Rightarrow> 'm list) send_json" where
  "faulty_send bad c m w = (if c \<in> bad then SendError w else Sent (w(c := w c @ [m])))"

section \<open>Numbers and arrays\<close>

text \<open>
  Python floats and numpy float64 values are modelled by real numbers: rounding, infinities
  and NaN are outside the model. \<open>np.cos\<close>, \<open>np.sin\<close>, \<open>np.exp\<close>, \<open>np.sqrt\<close> and
  \<open>np.pi\<close> are the real functions and the constant of the same name.

  A two-dimensional numpy array is its number of columns and the list of its rows, each
  row as long as \<open>ncols\<close>. \<open>len(a)\<close> is the number of rows.
\<close>

record ndarray =
  ncols :: nat
  rows :: "real list list"

text \<open>\<open>a[:, j]\<close>: the column \<open>j\<close>, or IndexError when the array has no such column.\<close>

definition column :: "ndarray \<Rightarrow> nat \<Rightarrow> py_error + real list" where
  "column a j = (if j < ncols a then Inr (map (\<lambda>r. r ! j) (rows a)) else Inl IndexError)"

text \<open>\<open>np.radians\<close>.\<close>

definition radians :: "real \<Rightarrow> real" where
  "radians x = x * pi / 180"

text \<open>\<open>np.clip(x, lo, hi)\<close> on one element.\<close>

definition clip :: "real \<Rightarrow> real \<Rightarrow> real \<Rightarrow> real" where
  "clip x lo hi = min (max x lo) hi"

text \<open>
  \<open>np.arange(start, stop, step)\<close>: \<open>ceil((stop - start) / step)\<close> values (none when that
  is not positive), the \<open>i\<close>-th being \<open>start + i * step\<close>. The division raises for a
  zero step.
\<close>

definition arange :: "real \<Rightarrow> real \<Rightarrow> real \<Rightarrow> py_error + real list" where
  "arange start stop step =
     (if step = 0 then Inl ZeroDivisionError
      else Inr (map (\<lambda>i. start + real i * step) [0..<nat \<lceil>(stop - start) / step\<rceil>]))"

text \<open>
  \<open>lat_grid, lon_grid = np.meshgrid(lats, lons)\<close> followed by \<open>flatten()\<close> of both: the
  grids have one row per element of \<open>lons\<close> and one column per element of \<open>lats\<close>, and
  are flattened row by row.
\<close>

definition meshgrid_flat :: "real list \<Rightarrow> real list \<Rightarrow> real list \<times> real list" where
  "meshgrid_flat lats lons =
     (concat (map (\<lambda>lo. lats) lons), concat (map (\<lambda>lo. map (\<lambda>la. lo) lats) lons))"

section \<open>Predictive model (backend/ml/model.py)\<close>

text \<open>
  The trained regressor (scikit-learn's \<open>RandomForestRegressor.predict\<close>) is outside the
  repository: it is a parameter, a function from a feature array to predictions that may
  raise. \<open>AirQualityModel\<close> has the field \<open>model\<close>; the model also carries what the
  object reads from outside: \<open>artifact\<close>, the regressor stored at \<open>model_path\<close> if that
  file exists, and \<open>noise\<close>, the values that the coming draws of
  \<open>np.random.normal(0, 10)\<close> return.
\<close>

type_synonym regressor = "ndarray \<Rightarrow> py_error + real list"

record AirQualityModel =
  model :: "regressor option"
  artifact :: "regressor option"
  noise :: "nat \<Rightarrow> real"

text \<open>\<open>AirQualityModel.load\<close>.\<close>

definition load :: "AirQualityModel \<Rightarrow> bool \<times> AirQualityModel" where
  "load self =
     (case artifact self of
        Some r \<Rightarrow> (True, self\<lparr>model := Some r\<rparr>)
      | None \<Rightarrow> (False, self))"

text \<open>
  \<open>AirQualityModel._mock_predict\<close>:
  \<^verbatim>\<open>
  lats = features[:, 0]
  lons = features[:, 1]
  dist = np.sqrt((lats - 28.6)**2 + (lons - 77.2)**2)
  base_aqi = 150 + 100 * np.exp(-dist * 10)
  noise = np.random.normal(0, 10, size=len(features))
  return base_aqi + noise
  \<close>
  The draw consumes \<open>len(features)\<close> values of the noise stream.
\<close>

definition mock_predict ::
  "ndarray \<Rightarrow> AirQualityModel \<Rightarrow> (py_error + real list) \<times> AirQualityModel" where
  "mock_predict features self =
     (case column features 0 of
        Inl e \<Rightarrow> (Inl e, self)
      | Inr lats \<Rightarrow>
          (case column features 1 of
             Inl e \<Rightarrow> (Inl e, self)
           | Inr lons \<Rightarrow>
               (let dist = map2 (\<lambda>la lo. sqrt ((la - 28.6)\<^sup>2 + (lo - 77.2)\<^sup>2)) lats lons;
                    base_aqi = map (\<lambda>d. 150 + 100 * exp (- d * 10)) dist;
                    n = length (rows features);
                    drawn = map (noise self) [0..<n]
                in (Inr (map2 (+) base_aqi drawn),
                    self\<lparr>noise := (\<lambda>i. noise self (i + n))\<rparr>))))"

text \<open>
  \<open>AirQualityModel.predict\<close>:
  \<^verbatim>\<open>
  if self.model is None:
      if not self.load():
          return self._mock_predict(features)
  return self.model.predict(features)
  \<close>
\<close>

definition run_model ::
  "ndarray \<Rightarrow> AirQualityModel \<Rightarrow> (py_error + real list) \<times> AirQualityModel" where
  "run_model features self =
     (case model self of
        Some r \<Rightarrow> (r features, self)
      | None \<Rightarrow> (Inl AttributeError, self))"

definition predict ::
  "ndarray \<Rightarrow> AirQualityModel \<Rightarrow> (py_error + real list) \<times> AirQualityModel" where
  "predict features self =
     (case model self of
        None \<Rightarrow>
          (case load self of
             (False, self') \<Rightarrow> mock_predict features self'
           | (True, self') \<Rightarrow> run_model features self')
      | Some r \<Rightarrow> run_model features self)"

section \<open>Clock\<close>

text \<open>
  A naive \<open>datetime\<close> (and a \<open>pd.Timestamp\<close>) is the number of microseconds since
  0001-01-01T00:00:00, a Monday. The type holds the instants of the years 1 to 9999;
  arithmetic that leaves the range raises OverflowError. \<open>isoformat()\<close> of an instant is
  represented by the instant itself, and \<open>strftime("%Y-%m-%d")\<close> by the number of the
  day.
\<close>

type_synonym datetime = int

definition usec_per_hour :: int where
  "usec_per_hour = 3600000000"

definition usec_per_day :: int where
  "usec_per_day = 86400000000"

definition datetime_max :: int where
  "datetime_max = 3652059 * 86400000000 - 1"

text \<open>\<open>t + timedelta(hours=h)\<close>.\<close>

definition add_hours :: "datetime \<Rightarrow> nat \<Rightarrow> py_error + datetime" where
  "add_hours t h =
     (let t' = t + int h * usec_per_hour
      in if 0 \<le> t' \<and> t' \<le> datetime_max then Inr t' else Inl OverflowError)"

text \<open>\<open>t.hour\<close>, \<open>t.weekday()\<close> (also \<open>t.dayofweek\<close>; Monday is 0) and the day of \<open>t\<close>.\<close>

definition hour_of :: "datetime \<Rightarrow> nat" where
  "hour_of t = nat ((t div usec_per_hour) mod 24)"

definition weekday :: "datetime \<Rightarrow> nat" where
  "weekday t = nat ((t div usec_per_day) mod 7)"

definition date_of :: "datetime \<Rightarrow> int" where
  "date_of t = t div usec_per_day"

section \<open>Grid generation (backend/services/prediction_service.py)\<close>

record grid_cell =
  lat :: real
  lon :: real
  aqi :: real

record grid_result =
  timestamp :: datetime
  grid :: "grid_cell list"
  center :: "real \<times> real"
  count :: nat

record PredictionService =
  ps_model :: AirQualityModel
  center_lat :: real
  center_lon :: real
  min_lat :: real
  max_lat :: real
  min_lon :: real
  max_lon :: real
  resolution :: real

text \<open>
  The bounding box, computed the same way in \<open>__init__\<close> and in \<open>get_full_grid\<close>:
  \<^verbatim>\<open>
  lat_offset = radius_km / 111.0
  lon_offset = radius_km / (111.0 * np.cos(np.radians(center_lat)))
  min_lat, max_lat = center_lat - lat_offset, center_lat + lat_offset
  min_lon, max_lon = center_lon - lon_offset, center_lon + lon_offset
  \<close>
  The result is \<open>(min_lat, max_lat, min_lon, max_lon)\<close>.
\<close>

definition bounding_box :: "real \<Rightarrow> real \<Rightarrow> real \<Rightarrow> real \<times> real \<times> real \<times> real" where
  "bounding_box c_lat c_lon radius_km =
     (let lat_offset = radius_km / 111;
          lon_offset = radius_km / (111 * cos (radians c_lat))
      in (c_lat - lat_offset, c_lat + lat_offset, c_lon - lon_offset, c_lon + lon_offset))"

text \<open>\<open>PredictionService.__init__(center_lat=28.6139, center_lon=77.2090, radius_km=25)\<close>,
  with the state of the model object it creates.\<close>

definition PredictionService_init ::
  "AirQualityModel \<Rightarrow> real \<Rightarrow> real \<Rightarrow> real \<Rightarrow> PredictionService" where
  "PredictionService_init m c_lat c_lon radius_km =
     (case bounding_box c_lat c_lon radius_km of
        (lo_lat, hi_lat, lo_lon, hi_lon) \<Rightarrow>
          \<lparr>ps_model = m, center_lat = c_lat, center_lon = c_lon,
           min_lat = lo_lat, max_lat = hi_lat, min_lon = lo_lon, max_lon = hi_lon,
           resolution = 0.005\<rparr>)"

definition default_service :: "AirQualityModel \<Rightarrow> PredictionService" where
  "default_service m = PredictionService_init m 28.6139 77.2090 25"

text \<open>
  \<open>_get_mock_traffic\<close>, on one point:
  \<^verbatim>\<open>
  dist_sq = (lats - center_lat)**2 + (lons - center_lon)**2
  return np.clip(1.0 / (dist_sq * 100 + 1), 0.1, 1.0)
  \<close>
\<close>

definition get_mock_traffic :: "real \<Rightarrow> real \<Rightarrow> real \<Rightarrow> real \<Rightarrow> real" where
  "get_mock_traffic la lo c_lat c_lon =
     (let dist_sq = (la - c_lat)\<^sup>2 + (lo - c_lon)\<^sup>2
      in clip (1 / (dist_sq * 100 + 1)) 0.1 1.0)"

text \<open>
  The loop that builds \<open>grid_data\<close>:
  \<^verbatim>\<open>
  for i in range(len(flat_lat)):
      grid_data.append({"lat": float(flat_lat[i]), "lon": float(flat_lon[i]),
                        "aqi": float(predictions[i])})
  \<close>
  \<open>flat_lat\<close> and \<open>flat_lon\<close> have the same length; \<open>predictions[i]\<close> raises
  IndexError when the model returned fewer values.
\<close>

fun build_grid :: "real list \<Rightarrow> real list \<Rightarrow> real list \<Rightarrow> py_error + grid_cell list" where
  "build_grid [] flat_lon predictions = Inr []"
| "build_grid (la # las) [] predictions = Inl IndexError"
| "build_grid (la # las) (lo # los) [] = Inl IndexError"
| "build_grid (la # las) (lo # los) (p # ps) =
     (case build_grid las los ps of
        Inl e \<Rightarrow> Inl e
      | Inr cells \<Rightarrow> Inr (\<lparr>lat = la, lon = lo, aqi = p\<rparr> # cells))"

text \<open>
  \<open>PredictionService.get_full_grid(lat=None, lon=None, radius_km=None)\<close>. The two
  readings of the clock are parameters: \<open>now\<close> is \<open>pd.Timestamp.now()\<close>, which gives
  the hour and the day of the week of the features, and \<open>stamp\<close> is the later
  \<open>datetime.now()\<close> of the result. The function returns its result, or the exception
  raised, and the state of the model object after the call.
\<close>

definition get_full_grid ::
  "real option \<Rightarrow> real option \<Rightarrow> real option \<Rightarrow> datetime \<Rightarrow> datetime \<Rightarrow> PredictionService
     \<Rightarrow> (py_error + grid_result) \<times> AirQualityModel" where
  "get_full_grid lat_arg lon_arg radius_km now stamp self =
     (let target_lat = (case lat_arg of Some v \<Rightarrow> v | None \<Rightarrow> center_lat self);
          target_lon = (case lon_arg of Some v \<Rightarrow> v | None \<Rightarrow> center_lon self);
          target_radius = (case radius_km of Some v \<Rightarrow> v | None \<Rightarrow> 25)
      in case bounding_box target_lat target_lon target_radius of
        (lo_lat, hi_lat, lo_lon, hi_lon) \<Rightarrow>
          (case arange lo_lat hi_lat (resolution self) of
             Inl e \<Rightarrow> (Inl e, ps_model self)
           | Inr lats \<Rightarrow>
               (case arange lo_lon hi_lon (resolution self) of
                  Inl e \<Rightarrow> (Inl e, ps_model self)
                | Inr lons \<Rightarrow>
                    (case meshgrid_flat lats lons of
                       (flat_lat, flat_lon) \<Rightarrow>
                         (let hour = hour_of now;
                              day_of_week = weekday now;
                              features =
                                \<lparr>ncols = 6,
                                 rows = map2 (\<lambda>la lo.
                                          [la, lo, real hour, real day_of_week,
                                           get_mock_traffic la lo target_lat target_lon, 25.0])
                                        flat_lat flat_lon\<rparr>
                          in case predict features (ps_model self) of
                            (Inl e, m') \<Rightarrow> (Inl e, m')
                          | (Inr predictions, m') \<Rightarrow>
                              (case build_grid flat_lat flat_lon predictions of
                                 Inl e \<Rightarrow> (Inl e, m')
                               | Inr grid_data \<Rightarrow>
                                   (Inr \<lparr>timestamp = stamp, grid = grid_data,
                                         center = (target_lat, target_lon),
                                         count = length grid_data\<rparr>, m')))))))"

section \<open>Hotspot detection (backend/services/hotspot_service.py)\<close>

text \<open>A hotspot has the keys of a grid cell and \<open>id\<close>, \<open>type\<close> and \<open>radius\<close>.\<close>

record hotspot = grid_cell +
  hotspot_id :: string
  hotspot_type :: string
  radius :: nat

text \<open>The decimal digits of a natural number, for \<open>f"hotspot_{len(hotspots)+1}"\<close>;
  \<open>digit\<close> is used for arguments below ten only.\<close>

definition digit :: "nat \<Rightarrow> char" where
  "digit d = ''0123456789'' ! d"

fun str_nat :: "nat \<Rightarrow> string" where
  "str_nat n = (if n < 10 then [digit n] else str_nat (n div 10) @ [digit (n mod 10)])"

text \<open>
  The inner loop of \<open>get_hotspots\<close>:
  \<^verbatim>\<open>
  is_near = False
  for existing in added:
      dist = (cell['lat'] - existing['lat'])**2 + (cell['lon'] - existing['lon'])**2
      if dist < 0.01: # ~1km
          is_near = True
          break
  \<close>
\<close>

definition sq_dist :: "('a grid_cell_scheme) \<Rightarrow> ('b grid_cell_scheme) \<Rightarrow> real" where
  "sq_dist cell existing = (lat cell - lat existing)\<^sup>2 + (lon cell - lon existing)\<^sup>2"

fun is_near :: "grid_cell \<Rightarrow> grid_cell list \<Rightarrow> bool" where
  "is_near cell [] = False"
| "is_near cell (existing # rest) =
     (let dist = sq_dist cell existing
      in if dist < 0.01 then True else is_near cell rest)"

text \<open>
  The outer loop:
  \<^verbatim>\<open>
  for cell in sorted_cells:
      if len(hotspots) >= 5:
          break
      ...
      if not is_near:
          hotspots.append({"id": f"hotspot_{len(hotspots)+1}", "lat": cell['lat'],
                           "lon": cell['lon'], "aqi": cell['aqi'],
                           "type": "Hotspot", "radius": 500})
          added.append(cell)
  \<close>
\<close>

fun cluster :: "grid_cell list \<Rightarrow> hotspot list \<Rightarrow> grid_cell list \<Rightarrow> hotspot list" where
  "cluster [] hotspots added = hotspots"
| "cluster (cell # rest) hotspots added =
     (if length hotspots \<ge> 5 then hotspots
      else if \<not> is_near cell added then
        cluster rest
          (hotspots @ [\<lparr>lat = lat cell, lon = lon cell, aqi = aqi cell,
                        hotspot_id = ''hotspot_'' @ str_nat (length hotspots + 1),
                        hotspot_type = ''Hotspot'', radius = 500\<rparr>])
          (added @ [cell])
      else cluster rest hotspots added)"

text \<open>
  The part of \<open>get_hotspots\<close> after the grid is fetched, on the list \<open>grid\<close> of cells. \<open>sorted(..., reverse=True)\<close> is
  stable: cells of equal AQI keep their order, as \<open>sort_key\<close> on the negated key does.
  The result is the pair of \<open>hotspots\<close> and \<open>corridors\<close>.
\<close>

definition detect_hotspots :: "grid_cell list \<Rightarrow> hotspot list \<times> unit list" where
  "detect_hotspots cells =
     (let high_aqi_cells = filter (\<lambda>cell. aqi cell > 200) cells;
          hotspots =
            (if high_aqi_cells \<noteq> [] then
               (let sorted_cells = sort_key (\<lambda>x. - aqi x) high_aqi_cells
                in cluster sorted_cells [] [])
             else []);
          corridors = []
      in (hotspots, corridors))"

text \<open>\<open>HotspotService.get_hotspots(lat=None, lon=None)\<close>; the service holds its own
  \<open>PredictionService()\<close>.\<close>

definition get_hotspots ::
  "real option \<Rightarrow> real option \<Rightarrow> datetime \<Rightarrow> datetime \<Rightarrow> PredictionService
     \<Rightarrow> (py_error + hotspot list \<times> unit list) \<times> AirQualityModel" where
  "get_hotspots lat_arg lon_arg now stamp prediction_service =
     (case get_full_grid lat_arg lon_arg None now stamp prediction_service of
        (Inl e, m') \<Rightarrow> (Inl e, m')
      | (Inr grid_data_res, m') \<Rightarrow> (Inr (detect_hotspots (grid grid_data_res)), m'))"

section \<open>Forecast (backend/services/forecast_service.py)\<close>

text \<open>
  One entry of \<open>forecasts\<close>. The keys \<open>timestamp\<close>, \<open>hour\<close>, \<open>date\<close>, \<open>aqi\<close>,
  \<open>category\<close>, \<open>traffic_level\<close> and \<open>temperature\<close> are the fields below, with the
  prefix \<open>fp_\<close>.
\<close>

record forecast_point =
  fp_timestamp :: datetime
  fp_hour :: string
  fp_date :: int
  fp_aqi :: real
  fp_category :: string
  fp_traffic_level :: string
  fp_temperature :: real

text \<open>The text of an f-string: literal pieces and formatted numbers.\<close>

datatype piece = Lit string | Num real

record alert =
  severity :: string
  time :: datetime
  message :: "piece list"
  recommendation :: string

record statistics =
  min_aqi :: real
  max_aqi :: real
  avg_aqi :: real
  worst_hour :: datetime
  best_hour :: datetime

text \<open>One entry of the daily summary: the keys \<open>date\<close>, \<open>min_aqi\<close>, \<open>max_aqi\<close>,
  \<open>avg_aqi\<close> and \<open>category\<close>, with the prefix \<open>ds_\<close>.\<close>

record day_summary =
  ds_date :: int
  ds_min_aqi :: real
  ds_max_aqi :: real
  ds_avg_aqi :: real
  ds_category :: string

text \<open>The result of \<open>get_forecast\<close>; the key \<open>statistics\<close> is the field \<open>stats\<close>.\<close>

record forecast_result =
  location :: "real \<times> real"
  generated_at :: datetime
  forecasts :: "forecast_point list"
  stats :: statistics
  daily_summary :: "day_summary list"
  alerts :: "alert list"

text \<open>\<open>ForecastService\<close>: \<open>self.model\<close> is the field \<open>fs_model\<close>.\<close>

record ForecastService =
  fs_model :: AirQualityModel
  forecast_hours :: nat

text \<open>\<open>ForecastService.__init__\<close>, with the state of the model object it creates.\<close>

definition ForecastService_init :: "AirQualityModel \<Rightarrow> ForecastService" where
  "ForecastService_init m = \<lparr>fs_model = m, forecast_hours = 48\<rparr>"

text \<open>\<open>round(x, 1)\<close>: to one decimal, a tie going to the even neighbour.\<close>

definition round_half_even :: "real \<Rightarrow> int" where
  "round_half_even x =
     (let f = \<lfloor>x\<rfloor>; d = x - of_int f
      in if d < 1 / 2 then f else if d > 1 / 2 then f + 1 else if even f then f else f + 1)"

definition round1 :: "real \<Rightarrow> real" where
  "round1 x = of_int (round_half_even (x * 10)) / 10"

text \<open>\<open>strftime("%H:00")\<close>.\<close>

definition hour_label :: "datetime \<Rightarrow> string" where
  "hour_label t =
     [digit (hour_of t div 10), digit (hour_of t mod 10)] @ '':00''"

text \<open>\<open>_estimate_traffic\<close>.\<close>

definition estimate_traffic :: "nat \<Rightarrow> nat \<Rightarrow> real" where
  "estimate_traffic hour day_of_week =
     (let base_traffic = (if day_of_week \<ge> 5 then 0.6 else 1.0)
      in if 7 \<le> hour \<and> hour < 10 then base_traffic * 1.5
         else if 17 \<le> hour \<and> hour < 21 then base_traffic * 1.6
         else if hour \<ge> 22 \<or> hour < 6 then base_traffic * 0.3
         else base_traffic * 0.8)"

text \<open>\<open>_estimate_temperature\<close>.\<close>

definition estimate_temperature :: "nat \<Rightarrow> real" where
  "estimate_temperature hour =
     (let base_temp = 20.0; variation = 10.0
      in base_temp + variation * sin ((real hour - 6) * pi / 12))"

text \<open>\<open>_get_category\<close>.\<close>

definition get_category :: "real \<Rightarrow> string" where
  "get_category a =
     (if a \<le> 50 then ''Good''
      else if a \<le> 100 then ''Moderate''
      else if a \<le> 150 then ''Unhealthy for Sensitive Groups''
      else if a \<le> 200 then ''Unhealthy''
      else if a \<le> 300 then ''Very Unhealthy''
      else ''Hazardous'')"

text \<open>\<open>_traffic_level\<close>.\<close>

definition traffic_level :: "real \<Rightarrow> string" where
  "traffic_level traffic_index =
     (if traffic_index < 0.5 then ''Low''
      else if traffic_index < 1.0 then ''Moderate''
      else if traffic_index < 1.4 then ''High''
      else ''Very High'')"

text \<open>
  The loop of \<open>get_forecast\<close> over \<open>range(self.forecast_hours)\<close>:
  \<^verbatim>\<open>
  forecast_time = current_time + timedelta(hours=hour_offset)
  hour = forecast_time.hour
  day_of_week = forecast_time.weekday()
  traffic_index = self._estimate_traffic(hour, day_of_week)
  temp = self._estimate_temperature(hour)
  features = np.array([[lat, lon, hour, day_of_week, traffic_index, temp]])
  predicted_aqi = float(self.model.predict(features)[0])
  forecasts.append({...})
  \<close>
  \<open>acc\<close> is the list \<open>forecasts\<close> built so far.
\<close>

fun forecast_loop ::
  "real \<Rightarrow> real \<Rightarrow> datetime \<Rightarrow> nat list \<Rightarrow> forecast_point list \<Rightarrow> AirQualityModel
     \<Rightarrow> (py_error + forecast_point list) \<times> AirQualityModel" where
  "forecast_loop latitude longitude current_time [] acc m = (Inr acc, m)"
| "forecast_loop latitude longitude current_time (hour_offset # rest) acc m =
     (case add_hours current_time hour_offset of
        Inl e \<Rightarrow> (Inl e, m)
      | Inr forecast_time \<Rightarrow>
          (let hour = hour_of forecast_time;
               day_of_week = weekday forecast_time;
               traffic_index = estimate_traffic hour day_of_week;
               temp = estimate_temperature hour;
               features =
                 \<lparr>ncols = 6,
                  rows = [[latitude, longitude, real hour, real day_of_week,
                           traffic_index, temp]]\<rparr>
           in case predict features m of
             (Inl e, m') \<Rightarrow> (Inl e, m')
           | (Inr [], m') \<Rightarrow> (Inl IndexError, m')
           | (Inr (predicted_aqi # _), m') \<Rightarrow>
               forecast_loop latitude longitude current_time rest
                 (acc @ [\<lparr>fp_timestamp = forecast_time,
                          fp_hour = hour_label forecast_time,
                          fp_date = date_of forecast_time,
                          fp_aqi = round1 predicted_aqi,
                          fp_category = get_category predicted_aqi,
                          fp_traffic_level = traffic_level traffic_index,
                          fp_temperature = round1 temp\<rparr>]) m'))"

text \<open>\<open>min\<close> and \<open>max\<close> of a list raise ValueError on the empty list; \<open>xs.index(v)\<close>
  is the first position of \<open>v\<close> and raises ValueError when there is none; \<open>xs[i]\<close>
  raises IndexError out of range; the average divides by the length.\<close>

definition py_min :: "real list \<Rightarrow> py_error + real" where
  "py_min xs = (case xs of [] \<Rightarrow> Inl ValueError | x # rest \<Rightarrow> Inr (fold min rest x))"

definition py_max :: "real list \<Rightarrow> py_error + real" where
  "py_max xs = (case xs of [] \<Rightarrow> Inl ValueError | x # rest \<Rightarrow> Inr (fold max rest x))"

fun py_index :: "real list \<Rightarrow> real \<Rightarrow> py_error + nat" where
  "py_index [] v = Inl ValueError"
| "py_index (x # xs) v =
     (if x = v then Inr 0
      else (case py_index xs v of Inl e \<Rightarrow> Inl e | Inr i \<Rightarrow> Inr (Suc i)))"

definition py_item :: "'a list \<Rightarrow> nat \<Rightarrow> py_error + 'a" where
  "py_item xs i = (if i < length xs then Inr (xs ! i) else Inl IndexError)"

definition py_avg :: "real list \<Rightarrow> py_error + real" where
  "py_avg xs = (if xs = [] then Inl ZeroDivisionError else Inr (sum_list xs / real (length xs)))"

text \<open>
  The \<open>statistics\<close> entry of the result:
  \<^verbatim>\<open>
  aqi_values = [f["aqi"] for f in forecasts]
  "min_aqi": round(min(aqi_values), 1),
  "max_aqi": round(max(aqi_values), 1),
  "avg_aqi": round(sum(aqi_values) / len(aqi_values), 1),
  "worst_hour": forecasts[aqi_values.index(max(aqi_values))]["timestamp"],
  "best_hour": forecasts[aqi_values.index(min(aqi_values))]["timestamp"]
  \<close>
\<close>

definition build_statistics :: "forecast_point list \<Rightarrow> py_error + statistics" where
  "build_statistics fs =
     (let aqi_values = map fp_aqi fs
      in case py_min aqi_values of
        Inl e \<Rightarrow> Inl e
      | Inr lo \<Rightarrow>
          (case py_max aqi_values of
             Inl e \<Rightarrow> Inl e
           | Inr hi \<Rightarrow>
               (case py_avg aqi_values of
                  Inl e \<Rightarrow> Inl e
                | Inr mean \<Rightarrow>
                    (case py_index aqi_values hi of
                       Inl e \<Rightarrow> Inl e
                     | Inr i_worst \<Rightarrow>
                         (case py_item fs i_worst of
                            Inl e \<Rightarrow> Inl e
                          | Inr worst \<Rightarrow>
                              (case py_index aqi_values lo of
                                 Inl e \<Rightarrow> Inl e
                               | Inr i_best \<Rightarrow>
                                   (case py_item fs i_best of
                                      Inl e \<Rightarrow> Inl e
                                    | Inr best \<Rightarrow>
                                        Inr \<lparr>min_aqi = round1 lo, max_aqi = round1 hi,
                                             avg_aqi = round1 mean,
                                             worst_hour = fp_timestamp worst,
                                             best_hour = fp_timestamp best\<rparr>)))))))"

text \<open>
  \<open>_get_daily_summary\<close>. The dictionary \<open>daily\<close> keeps its keys in insertion order:
  \<^verbatim>\<open>
  for forecast in forecasts:
      date = forecast["date"]
      if date not in daily:
          daily[date] = []
      daily[date].append(forecast["aqi"])
  \<close>
\<close>

fun daily_append :: "int \<Rightarrow> real \<Rightarrow> (int \<times> real list) list \<Rightarrow> (int \<times> real list) list" where
  "daily_append d a [] = [(d, [a])]"
| "daily_append d a ((k, vs) # rest) =
     (if k = d then (k, vs @ [a]) # rest else (k, vs) # daily_append d a rest)"

definition group_daily :: "forecast_point list \<Rightarrow> (int \<times> real list) list" where
  "group_daily fs =
     fold (\<lambda>forecast daily. daily_append (fp_date forecast) (fp_aqi forecast) daily) fs []"

text \<open>
  \<^verbatim>\<open>
  for date, aqi_values in daily.items():
      summaries.append({
          "date": date,
          "min_aqi": round(min(aqi_values), 1),
          "max_aqi": round(max(aqi_values), 1),
          "avg_aqi": round(sum(aqi_values) / len(aqi_values), 1),
          "category": self._get_category(sum(aqi_values) / len(aqi_values))})
  \<close>
\<close>

fun summaries :: "(int \<times> real list) list \<Rightarrow> py_error + day_summary list" where
  "summaries [] = Inr []"
| "summaries ((d, aqi_values) # rest) =
     (case py_min aqi_values of
        Inl e \<Rightarrow> Inl e
      | Inr lo \<Rightarrow>
          (case py_max aqi_values of
             Inl e \<Rightarrow> Inl e
           | Inr hi \<Rightarrow>
               (case py_avg aqi_values of
                  Inl e \<Rightarrow> Inl e
                | Inr mean \<Rightarrow>
                    (case summaries rest of
                       Inl e \<Rightarrow> Inl e
                     | Inr others \<Rightarrow>
                         Inr (\<lparr>ds_date = d, ds_min_aqi = round1 lo, ds_max_aqi = round1 hi,
                               ds_avg_aqi = round1 mean, ds_category = get_category mean\<rparr>
                              # others)))))"

definition get_daily_summary :: "forecast_point list \<Rightarrow> py_error + day_summary list" where
  "get_daily_summary fs = summaries (group_daily fs)"

text \<open>
  \<open>_generate_alerts\<close>. The first loop:
  \<^verbatim>\<open>
  for i, forecast in enumerate(forecasts):
      if forecast["aqi"] > 200:
          alerts.append({
              "severity": "high" if forecast["aqi"] > 250 else "medium",
              "time": forecast["timestamp"],
              "message": f"High pollution expected at {forecast['hour']} (AQI: {forecast['aqi']})",
              "recommendation": "Avoid outdoor activities during this time"})
  \<close>
\<close>

definition threshold_pass :: "forecast_point list \<Rightarrow> alert list \<Rightarrow> alert list" where
  "threshold_pass fs acc =
     fold (\<lambda>forecast acc.
             if fp_aqi forecast > 200 then
               acc @ [\<lparr>severity = (if fp_aqi forecast > 250 then ''high'' else ''medium''),
                       time = fp_timestamp forecast,
                       message = [Lit ''High pollution expected at '', Lit (fp_hour forecast),
                                  Lit '' (AQI: '', Num (fp_aqi forecast), Lit '')''],
                       recommendation = ''Avoid outdoor activities during this time''\<rparr>]
             else acc)
       fs acc"

text \<open>
  The second loop:
  \<^verbatim>\<open>
  for i in range(len(forecasts) - 1):
      aqi_change = forecasts[i + 1]["aqi"] - forecasts[i]["aqi"]
      if abs(aqi_change) > 50:
          alerts.append({
              "severity": "medium",
              "time": forecasts[i + 1]["timestamp"],
              "message": f"Rapid AQI change expected: {'+' if aqi_change > 0 else ''}{round(aqi_change, 1)}",
              "recommendation": "Monitor conditions closely"})
  \<close>
  Both indices are in range for every \<open>i\<close> of the loop.
\<close>

definition volatility_pass :: "forecast_point list \<Rightarrow> alert list \<Rightarrow> alert list" where
  "volatility_pass fs acc =
     fold (\<lambda>i acc.
             (let aqi_change = fp_aqi (fs ! (i + 1)) - fp_aqi (fs ! i)
              in if \<bar>aqi_change\<bar> > 50 then
                   acc @ [\<lparr>severity = ''medium'',
                           time = fp_timestamp (fs ! (i + 1)),
                           message = [Lit ''Rapid AQI change expected: '',
                                      Lit (if aqi_change > 0 then ''+'' else []),
                                      Num (round1 aqi_change)],
                           recommendation = ''Monitor conditions closely''\<rparr>]
                 else acc))
       [0..<length fs - 1] acc"

text \<open>\<open>return alerts[:10]\<close>.\<close>

definition generate_alerts :: "forecast_point list \<Rightarrow> alert list" where
  "generate_alerts fs = take 10 (volatility_pass fs (threshold_pass fs []))"

text \<open>\<open>ForecastService.get_forecast(lat, lon)\<close>; \<open>current_time\<close> is the reading
  \<open>datetime.now()\<close> of the clock.\<close>

definition get_forecast ::
  "real \<Rightarrow> real \<Rightarrow> datetime \<Rightarrow> ForecastService
     \<Rightarrow> (py_error + forecast_result) \<times> AirQualityModel" where
  "get_forecast latitude longitude current_time self =
     (case forecast_loop latitude longitude current_time [0..<forecast_hours self] []
             (fs_model self) of
        (Inl e, m') \<Rightarrow> (Inl e, m')
      | (Inr fs, m') \<Rightarrow>
          (case build_statistics fs of
             Inl e \<Rightarrow> (Inl e, m')
           | Inr st \<Rightarrow>
               (case get_daily_summary fs of
                  Inl e \<Rightarrow> (Inl e, m')
                | Inr daily \<Rightarrow>
                    (Inr \<lparr>location = (latitude, longitude), generated_at = current_time,
                          forecasts = fs, stats = st, daily_summary = daily,
                          alerts = generate_alerts fs\<rparr>, m'))))"

section \<open>The alert rule as the specification words it\<close>

text \<open>
  One alert per point with AQI above 200, in point order, then one alert per consecutive
  pair whose AQI differs by more than 50 in absolute value, stamped at the later point;
  the first ten of the concatenation.
\<close>

definition threshold_alert :: "forecast_point \<Rightarrow> alert" where
  "threshold_alert p =
     \<lparr>severity = (if fp_aqi p > 250 then ''high'' else ''medium''),
      time = fp_timestamp p,
      message = [Lit ''High pollution expected at '', Lit (fp_hour p),
                 Lit '' (AQI: '', Num (fp_aqi p), Lit '')''],
      recommendation = ''Avoid outdoor activities during this time''\<rparr>"

definition volatility_alert :: "forecast_point \<times> forecast_point \<Rightarrow> alert" where
  "volatility_alert pq =
     \<lparr>severity = ''medium'',
      time = fp_timestamp (snd pq),
      message = [Lit ''Rapid AQI change expected: '',
                 Lit (if fp_aqi (snd pq) - fp_aqi (fst pq) > 0 then ''+'' else []),
                 Num (round1 (fp_aqi (snd pq) - fp_aqi (fst pq)))],
      recommendation = ''Monitor conditions closely''\<rparr>"

definition spec_alerts :: "forecast_point list \<Rightarrow> alert list" where
  "spec_alerts ps =
     take 10
       (map threshold_alert (filter (\<lambda>p. fp_aqi p > 200) ps)
        @ map volatility_alert
            (filter (\<lambda>pq. \<bar>fp_aqi (snd pq) - fp_aqi (fst pq)\<bar> > 50) (zip ps (tl ps))))"

section \<open>Conditions on the environment\<close>

text \<open>\<open>AirQualityModel.__init__\<close>: \<open>self.model = None\<close>; the artifact on disk and the
  noise to come are those of the environment.\<close>

definition AirQualityModel_init :: "regressor option \<Rightarrow> (nat \<Rightarrow> real) \<Rightarrow> AirQualityModel" where
  "AirQualityModel_init on_disk draws = \<lparr>model = None, artifact = on_disk, noise = draws\<rparr>"

text \<open>A fresh model object where no artifact is on disk and every draw of noise is 0.\<close>

definition fallback_model :: AirQualityModel where
  "fallback_model = AirQualityModel_init None (\<lambda>i. 0)"

text \<open>The regressor that \<open>predict\<close> runs, if any: the loaded one, else the one on disk.\<close>

definition regressor_in_use :: "AirQualityModel \<Rightarrow> regressor option" where
  "regressor_in_use self = (case model self of Some r \<Rightarrow> Some r | None \<Rightarrow> artifact self)"

text \<open>
  The contract of the trained regressor: on an array of six columns and at least one row
  it returns one prediction for each row. Nothing is asked when no regressor is in use.
\<close>

definition scoring_total :: "AirQualityModel \<Rightarrow> bool" where
  "scoring_total self =
     (\<forall>r a. regressor_in_use self = Some r \<and> ncols a = 6 \<and> rows a \<noteq> []
        \<longrightarrow> (\<exists>ps. r a = Inr ps \<and> length ps = length (rows a)))"

section \<open>Properties of the connection registry\<close>

lemma list_remove_mem: "x \<in> set xs \<Longrightarrow> list_remove x xs = Inr (remove1 x xs)"
  by (induction xs) auto

lemma mset_Cons_sub_mem: "mset (d # ds) \<subseteq># mset active \<Longrightarrow> d \<in> set active"
proof -
  assume "mset (d # ds) \<subseteq># mset active"
  moreover have "d \<in># mset (d # ds)" by simp
  ultimately have "d \<in># mset active" by (rule mset_subset_eqD)
  then show ?thesis by simp
qed

lemma mset_Cons_sub_rest:
  "mset (d # ds) \<subseteq># mset active \<Longrightarrow> mset ds \<subseteq># mset (remove1 d active)"
proof -
  assume "mset (d # ds) \<subseteq># mset active"
  then have "add_mset d (mset ds) \<subseteq># mset active" by simp
  then have "mset ds \<subseteq># mset active - {#d#}"
    unfolding insert_subset_eq_iff by (rule conjunct2)
  then show ?thesis by simp
qed

lemma list_remove_absent: "x \<notin> set xs \<Longrightarrow> list_remove x xs = Inl ValueError"
  by (induction xs) auto

lemma raised_subseq: "subseq (raised u) (map fst u)"
  unfolding raised_def by (induction u) auto

lemma cleanup_fold:
  "mset ds \<subseteq># mset active \<Longrightarrow> cleanup ds active = Inr (fold remove1 ds active)"
proof (induction ds arbitrary: active)
  case Nil
  then show ?case by simp
next
  case (Cons d ds)
  from Cons.prems have mem: "d \<in> set active" by (rule mset_Cons_sub_mem)
  from Cons.prems have "mset ds \<subseteq># mset (remove1 d active)" by (rule mset_Cons_sub_rest)
  from Cons.IH [OF this] mem show ?case
    by (simp add: list_remove_mem)
qed

lemma filter_neq_absent: "d \<notin> set xs \<Longrightarrow> filter (\<lambda>c. c \<noteq> d) xs = xs"
  by (induction xs) auto

lemma remove1_filter_distinct: "distinct xs \<Longrightarrow> remove1 d xs = filter (\<lambda>c. c \<noteq> d) xs"
  by (induction xs) (auto simp: filter_neq_absent)

lemma fold_remove1_distinct:
  "distinct active \<Longrightarrow> fold remove1 ds active = filter (\<lambda>c. c \<notin> set ds) active"
proof (induction ds arbitrary: active)
  case Nil
  then show ?case by simp
next
  case (Cons d ds)
  have "distinct (remove1 d active)" using Cons.prems by simp
  from Cons.IH [OF this] have
    "fold remove1 (d # ds) active = filter (\<lambda>c. c \<notin> set ds) (remove1 d active)" by simp
  also have "remove1 d active = filter (\<lambda>c. c \<noteq> d) active"
    using Cons.prems by (rule remove1_filter_distinct)
  also have "filter (\<lambda>c. c \<notin> set ds) (filter (\<lambda>c. c \<noteq> d) active)
      = filter (\<lambda>c. c \<notin> set (d # ds)) active"
    by (induction active) auto
  finally show ?case .
qed

lemma mset_fold_remove1:
  "mset ds \<subseteq># mset active \<Longrightarrow> mset (fold remove1 ds active) = mset active - mset ds"
proof (induction ds arbitrary: active)
  case Nil
  then show ?case by simp
next
  case (Cons d ds)
  from Cons.prems have "mset ds \<subseteq># mset (remove1 d active)" by (rule mset_Cons_sub_rest)
  from Cons.IH [OF this] show ?case by simp
qed

lemma subseq_remove1: "subseq (remove1 d active) active"
  by (induction active) auto

lemma subseq_fold_remove1: "subseq (fold remove1 ds active) active"
proof (induction ds arbitrary: active)
  case Nil
  then show ?case by simp
next
  case (Cons d ds)
  have "subseq (fold remove1 ds (remove1 d active)) (remove1 d active)" by (rule Cons.IH)
  then have "subseq (fold remove1 ds (remove1 d active)) active"
    using subseq_remove1 by (rule subseq_order.trans)
  then show ?case by simp
qed

lemma raised_append: "raised (t @ u) = raised t @ raised u"
  by (simp add: raised_def)

lemma raised_mset: "mset (raised u) \<subseteq># mset (map fst u)"
proof (induction u)
  case Nil
  show ?case by (simp add: raised_def)
next
  case (Cons a u)
  show ?case
  proof (cases "snd a")
    case True
    then have "raised (a # u) = raised u" by (simp add: raised_def)
    moreover have "mset (map fst u) \<subseteq># mset (map fst (a # u))" by simp
    ultimately show ?thesis using Cons.IH by (metis subset_mset.order_trans)
  next
    case False
    then have "raised (a # u) = fst a # raised u" by (simp add: raised_def)
    then show ?thesis using Cons.IH by simp
  qed
qed

lemma world_after_Cons:
  "world_after send msg (c # cs) w = world_after send msg cs (world_of (send c msg w))"
  by (simp add: world_after_def)

lemma attempts_Nil: "attempts send msg [] w = []"
  by (simp add: attempts_def)

lemma attempts_Cons:
  "attempts send msg (c # cs) w
     = (c, sent (send c msg w)) # attempts send msg cs (world_of (send c msg w))"
proof -
  have "[0..<length (c # cs)] = 0 # map Suc [0..<length cs]"
    by (simp add: upt_conv_Cons map_Suc_upt del: upt_Suc)
  then show ?thesis
    by (simp add: attempts_def world_after_Cons o_def world_after_def del: upt_Suc)
qed

lemma map_fst_attempts: "map fst (attempts send msg cs w) = cs"
  by (induction cs arbitrary: w) (simp_all add: attempts_Nil attempts_Cons)

lemma send_pass_spec:
  "send_pass send msg cs d t w
     = (d @ raised (attempts send msg cs w), t @ attempts send msg cs w,
        world_after send msg cs w)"
proof (induction cs arbitrary: d t w)
  case Nil
  show ?case by (simp add: attempts_Nil raised_def world_after_def)
next
  case (Cons c cs)
  show ?case
  proof (cases "send c msg w")
    case (Sent v)
    then show ?thesis
      by (simp add: Cons.IH attempts_Cons world_after_Cons raised_def)
  next
    case (SendError v)
    then show ?thesis
      by (simp add: Cons.IH attempts_Cons world_after_Cons raised_def)
  qed
qed

lemma broadcast_result:
  "broadcast send msg self w
     = Inr (self\<lparr>active_connections :=
                   fold remove1 (raised (attempts send msg (active_connections self) w))
                     (active_connections self)\<rparr>,
            world_after send msg (active_connections self) w,
            attempts send msg (active_connections self) w)"
proof -
  let ?cs = "active_connections self"
  let ?t = "attempts send msg ?cs w"
  have "mset (raised ?t) \<subseteq># mset (map fst ?t)" by (rule raised_mset)
  then have "mset (raised ?t) \<subseteq># mset ?cs" by (simp only: map_fst_attempts)
  then have "cleanup (raised ?t) ?cs = Inr (fold remove1 (raised ?t) ?cs)"
    by (rule cleanup_fold)
  then show ?thesis by (simp add: broadcast_def send_pass_spec)
qed

lemma fold_remove1_filter:
  "\<forall>y \<in> set ys. \<not> P y \<Longrightarrow>
     fold remove1 (filter P xs) (ys @ xs) = ys @ filter (\<lambda>x. \<not> P x) xs"
proof (induction xs arbitrary: ys)
  case Nil
  show ?case by simp
next
  case (Cons x xs)
  show ?case
  proof (cases "P x")
    case True
    with Cons.prems have "x \<notin> set ys" by auto
    then have "remove1 x (ys @ x # xs) = ys @ xs" by (simp add: remove1_append)
    with True Cons.IH [OF Cons.prems] show ?thesis by simp
  next
    case False
    with Cons.prems have "\<forall>y \<in> set (ys @ [x]). \<not> P y" by simp
    from Cons.IH [OF this] False show ?thesis by simp
  qed
qed

lemma attempts_uniform:
  "\<forall>c \<in> set cs. \<forall>v. sent (send c msg v) = ok c \<Longrightarrow>
     attempts send msg cs w = map (\<lambda>c. (c, ok c)) cs"
  by (induction cs arbitrary: w) (simp_all add: attempts_Nil attempts_Cons)

lemma raised_uniform: "raised (map (\<lambda>c. (c, ok c)) cs) = filter (\<lambda>c. \<not> ok c) cs"
  by (induction cs) (simp_all add: raised_def)

text \<open>
  Claim C1. A broadcast, run without interleaving, never raises. The sends it makes are
  the ones owed: \<open>send_json\<close> is called once on every registered connection, in
  registration order and in the world left by the calls before it, whether or not those
  raised; the world it leaves is the world after all these calls, and the flag of each
  entry of its trace is whether \<open>send_json\<close> returned there. The removals happen after
  the pass: the new registry is a subsequence of the old one that has lost one
  registration for each send that raised; when every connection is registered once it is
  the old registry without the connections whose send raised, and when the connections of
  a set \<open>bad\<close> are exactly those whose send raises it is the old registry without
  \<open>bad\<close>. A later broadcast makes the sends owed to the surviving connections, and only
  those.
\<close>

theorem broadcast_isolates_failures:
  fixes send :: "('m, 'w) send_json"
  shows "\<exists>self'.
      broadcast send msg self w
        = Inr (self', world_after send msg (active_connections self) w,
               attempts send msg (active_connections self) w)
      \<and> subseq (active_connections self') (active_connections self)
      \<and> mset (active_connections self')
          = mset (active_connections self)
            - mset (raised (attempts send msg (active_connections self) w))
      \<and> (distinct (active_connections self) \<longrightarrow>
            active_connections self'
              = filter (\<lambda>c. c \<notin> set (raised (attempts send msg (active_connections self) w)))
                  (active_connections self))
      \<and> (\<forall>bad. (\<forall>c \<in> set (active_connections self). \<forall>v. sent (send c msg v) = (c \<notin> bad)) \<longrightarrow>
            active_connections self' = filter (\<lambda>c. c \<notin> bad) (active_connections self))
      \<and> (\<forall>msg2 w2. \<exists>self''.
            broadcast send msg2 self' w2
              = Inr (self'', world_after send msg2 (active_connections self') w2,
                     attempts send msg2 (active_connections self') w2))"
proof -
  let ?cs = "active_connections self"
  let ?t = "attempts send msg ?cs w"
  let ?self' = "self\<lparr>active_connections := fold remove1 (raised ?t) ?cs\<rparr>"
  have r: "broadcast send msg self w = Inr (?self', world_after send msg ?cs w, ?t)"
    by (rule broadcast_result)
  have "mset (raised ?t) \<subseteq># mset (map fst ?t)" by (rule raised_mset)
  then have sub: "mset (raised ?t) \<subseteq># mset ?cs" by (simp only: map_fst_attempts)
  have a: "subseq (active_connections ?self') ?cs"
    by (simp add: subseq_fold_remove1)
  have b: "mset (active_connections ?self') = mset ?cs - mset (raised ?t)"
    using mset_fold_remove1 [OF sub] by simp
  have c: "distinct ?cs \<longrightarrow>
      active_connections ?self' = filter (\<lambda>c. c \<notin> set (raised ?t)) ?cs"
    by (simp add: fold_remove1_distinct)
  have d: "\<forall>bad. (\<forall>c \<in> set ?cs. \<forall>v. sent (send c msg v) = (c \<notin> bad)) \<longrightarrow>
      active_connections ?self' = filter (\<lambda>c. c \<notin> bad) ?cs"
  proof (intro allI impI)
    fix bad assume u: "\<forall>c \<in> set ?cs. \<forall>v. sent (send c msg v) = (c \<notin> bad)"
    have "?t = map (\<lambda>c. (c, c \<notin> bad)) ?cs"
      by (rule attempts_uniform) (rule u)
    then have "raised ?t = filter (\<lambda>c. \<not> c \<notin> bad) ?cs"
      by (simp only: raised_uniform)
    moreover have "fold remove1 (filter (\<lambda>c. \<not> c \<notin> bad) ?cs) ([] @ ?cs)
        = [] @ filter (\<lambda>x. \<not> \<not> x \<notin> bad) ?cs"
      by (rule fold_remove1_filter) simp
    ultimately show "active_connections ?self' = filter (\<lambda>c. c \<notin> bad) ?cs" by simp
  qed
  have e: "\<forall>msg2 w2. \<exists>self''.
      broadcast send msg2 ?self' w2
        = Inr (self'', world_after send msg2 (active_connections ?self') w2,
               attempts send msg2 (active_connections ?self') w2)"
  proof (intro allI)
    fix msg2 w2
    show "\<exists>self''.
      broadcast send msg2 ?self' w2
        = Inr (self'', world_after send msg2 (active_connections ?self') w2,
               attempts send msg2 (active_connections ?self') w2)"
      by (rule exI) (rule broadcast_result)
  qed
  show ?thesis by (rule exI [where x = ?self']) (intro conjI r a b c d e)
qed

text \<open>
  The witness is the scenario of three connections of which the second always errors: the
  first and the third receive the message, the second is removed, and the next broadcast
  reaches the first and the third only.
\<close>

theorem broadcast_isolates_failures_witness:
  "distinct (active_connections \<lparr>active_connections = [1, 2, 3]\<rparr>)
   \<and> (\<forall>v. sent (faulty_send {2} 1 ''update'' (v :: conn \<Rightarrow> string list)))
   \<and> (\<forall>v. \<not> sent (faulty_send {2} 2 ''update'' (v :: conn \<Rightarrow> string list)))
   \<and> (\<forall>v. sent (faulty_send {2} 3 ''update'' (v :: conn \<Rightarrow> string list)))
   \<and> attempts (faulty_send {2}) ''update'' [1, 2, 3] (\<lambda>c. []) = [(1, True), (2, False), (3, True)]
   \<and> world_after (faulty_send {2}) ''update'' [1, 2, 3] (\<lambda>c. []) 1 = [''update'']
   \<and> world_after (faulty_send {2}) ''update'' [1, 2, 3] (\<lambda>c. []) 2 = []
   \<and> world_after (faulty_send {2}) ''update'' [1, 2, 3] (\<lambda>c. []) 3 = [''update'']
   \<and> (\<exists>self'. broadcast (faulty_send {2}) ''update'' \<lparr>active_connections = [1, 2, 3]\<rparr> (\<lambda>c. [])
              = Inr (self', world_after (faulty_send {2}) ''update'' [1, 2, 3] (\<lambda>c. []),
                     [(1, True), (2, False), (3, True)])
            \<and> active_connections self' = [1, 3]
            \<and> (\<exists>self''. broadcast (faulty_send {2}) ''again'' self' (\<lambda>c. [])
                  = Inr (self'', world_after (faulty_send {2}) ''again'' [1, 3] (\<lambda>c. []),
                         attempts (faulty_send {2}) ''again'' [1, 3] (\<lambda>c. []))))
   \<and> attempts (faulty_send {2}) ''again'' [1, 3] (\<lambda>c. []) = [(1, True), (3, True)]"
proof -
  let ?self = "\<lparr>active_connections = [1, 2, 3]\<rparr>"
  let ?send = "faulty_send {2} :: (string, conn \<Rightarrow> string list) send_json"
  have h1: "distinct (active_connections ?self)" by simp
  have h2: "\<forall>c \<in> set (active_connections ?self). \<forall>v. sent (?send c ''update'' v) = (c \<notin> {2})"
    by (simp add: faulty_send_def)
  have h3: "\<forall>v. sent (?send 1 ''update'' v)" "\<forall>v. \<not> sent (?send 2 ''update'' v)"
    "\<forall>v. sent (?send 3 ''update'' v)"
    by (simp_all add: faulty_send_def)
  have t1: "attempts ?send ''update'' [1, 2, 3] (\<lambda>c. []) = [(1, True), (2, False), (3, True)]"
    by (simp add: attempts_Cons attempts_Nil faulty_send_def)
  have t2: "attempts ?send ''again'' [1, 3] (\<lambda>c. []) = [(1, True), (3, True)]"
    by (simp add: attempts_Cons attempts_Nil faulty_send_def)
  have v: "world_after ?send ''update'' [1, 2, 3] (\<lambda>c. []) 1 = [''update'']"
    "world_after ?send ''update'' [1, 2, 3] (\<lambda>c. []) 2 = []"
    "world_after ?send ''update'' [1, 2, 3] (\<lambda>c. []) 3 = [''update'']"
    by (simp_all add: world_after_def faulty_send_def)
  from broadcast_isolates_failures [of ?send "''update''" ?self "\<lambda>c. []"] obtain self' where
    big: "broadcast ?send ''update'' ?self (\<lambda>c. [])
        = Inr (self', world_after ?send ''update'' (active_connections ?self) (\<lambda>c. []),
               attempts ?send ''update'' (active_connections ?self) (\<lambda>c. []))
      \<and> subseq (active_connections self') (active_connections ?self)
      \<and> mset (active_connections self')
          = mset (active_connections ?self)
            - mset (raised (attempts ?send ''update'' (active_connections ?self) (\<lambda>c. [])))
      \<and> (distinct (active_connections ?self) \<longrightarrow>
            active_connections self'
              = filter (\<lambda>c. c \<notin> set (raised (attempts ?send ''update''
                                              (active_connections ?self) (\<lambda>c. []))))
                  (active_connections ?self))
      \<and> (\<forall>bad. (\<forall>c \<in> set (active_connections ?self).
                  \<forall>v. sent (?send c ''update'' v) = (c \<notin> bad)) \<longrightarrow>
            active_connections self' = filter (\<lambda>c. c \<notin> bad) (active_connections ?self))
      \<and> (\<forall>msg2 w2. \<exists>self''.
            broadcast ?send msg2 self' w2
              = Inr (self'', world_after ?send msg2 (active_connections self') w2,
                     attempts ?send msg2 (active_connections self') w2))" ..
  note s1 = big [THEN conjunct1]
  note s5 = big [THEN conjunct2, THEN conjunct2, THEN conjunct2, THEN conjunct2, THEN conjunct1]
  note s6 = big [THEN conjunct2, THEN conjunct2, THEN conjunct2, THEN conjunct2, THEN conjunct2]
  from s5 [THEN spec, of "{2}"] h2
  have "active_connections self' = filter (\<lambda>c. c \<notin> {2}) (active_connections ?self)"
    by (rule mp)
  then have a: "active_connections self' = [1, 3]" by simp
  from s6 [rule_format, of "''again''" "\<lambda>c. []"] obtain self'' where
    "broadcast ?send ''again'' self' (\<lambda>c. [])
       = Inr (self'', world_after ?send ''again'' (active_connections self') (\<lambda>c. []),
              attempts ?send ''again'' (active_connections self') (\<lambda>c. []))" ..
  then have "broadcast ?send ''again'' self' (\<lambda>c. [])
       = Inr (self'', world_after ?send ''again'' [1, 3] (\<lambda>c. []),
              attempts ?send ''again'' [1, 3] (\<lambda>c. []))"
    by (simp only: a)
  note again = this
  have b: "\<exists>self''. broadcast ?send ''again'' self' (\<lambda>c. [])
       = Inr (self'', world_after ?send ''again'' [1, 3] (\<lambda>c. []),
              attempts ?send ''again'' [1, 3] (\<lambda>c. []))"
    by (rule exI) (rule again)
  have c: "broadcast ?send ''update'' ?self (\<lambda>c. [])
          = Inr (self', world_after ?send ''update'' [1, 2, 3] (\<lambda>c. []),
                 [(1, True), (2, False), (3, True)])"
    using s1 by (simp only: t1 ConnectionManager.simps)
  have "\<exists>self'. broadcast ?send ''update'' ?self (\<lambda>c. [])
              = Inr (self', world_after ?send ''update'' [1, 2, 3] (\<lambda>c. []),
                     [(1, True), (2, False), (3, True)])
            \<and> active_connections self' = [1, 3]
            \<and> (\<exists>self''. broadcast ?send ''again'' self' (\<lambda>c. [])
                  = Inr (self'', world_after ?send ''again'' [1, 3] (\<lambda>c. []),
                         attempts ?send ''again'' [1, 3] (\<lambda>c. [])))"
    by (rule exI [where x = self']) (intro conjI c a b)
  with h1 h3 t1 v t2 show ?thesis by (intro conjI)
qed

text \<open>
  Claim C10. When every call of \<open>send_json\<close> of the pass returns (the call on each
  connection, made in the world left by the calls before it), the broadcast returns the
  registry object as it was: the same connections in the same order, and no other field
  changed.
\<close>

theorem broadcast_without_failure_keeps_registry:
  fixes send :: "('m, 'w) send_json"
  assumes "\<forall>i < length (active_connections self).
             sent (send (active_connections self ! i) msg
                     (world_after send msg (take i (active_connections self)) w))"
  shows "broadcast send msg self w
           = Inr (self, world_after send msg (active_connections self) w,
                  map (\<lambda>c. (c, True)) (active_connections self))"
proof -
  let ?cs = "active_connections self"
  have t: "attempts send msg ?cs w = map (\<lambda>c. (c, True)) ?cs"
  proof (rule nth_equalityI)
    show "length (attempts send msg ?cs w) = length (map (\<lambda>c. (c, True)) ?cs)"
      by (simp add: attempts_def)
  next
    fix i assume "i < length (attempts send msg ?cs w)"
    then have i: "i < length ?cs" by (simp add: attempts_def)
    with assms have "sent (send (?cs ! i) msg (world_after send msg (take i ?cs) w))" by simp
    with i show "attempts send msg ?cs w ! i = map (\<lambda>c. (c, True)) ?cs ! i"
      by (simp add: attempts_def)
  qed
  have "raised (map (\<lambda>c. (c, True)) ?cs) = []" by (simp add: raised_uniform)
  then show ?thesis unfolding broadcast_result t by simp
qed

text \<open>
  The witness: three connections whose sends all return.
\<close>

theorem broadcast_without_failure_keeps_registry_witness:
  "sent (faulty_send {} 1 ''update'' (world_after (faulty_send {}) ''update'' [] (\<lambda>c. [])))
   \<and> sent (faulty_send {} 2 ''update'' (world_after (faulty_send {}) ''update'' [1] (\<lambda>c. [])))
   \<and> sent (faulty_send {} 3 ''update''
            (world_after (faulty_send {}) ''update'' [1, 2] (\<lambda>c. [])))
   \<and> broadcast (faulty_send {}) ''update'' \<lparr>active_connections = [1, 2, 3]\<rparr> (\<lambda>c. [])
       = Inr (\<lparr>active_connections = [1, 2, 3]\<rparr>,
              world_after (faulty_send {}) ''update'' [1, 2, 3] (\<lambda>c. []),
              [(1, True), (2, True), (3, True)])
   \<and> world_after (faulty_send {}) ''update'' [1, 2, 3] (\<lambda>c. []) 2 = [''update'']"
proof -
  let ?self = "\<lparr>active_connections = [1, 2, 3]\<rparr>"
  let ?send = "faulty_send {} :: (string, conn \<Rightarrow> string list) send_json"
  have h: "\<forall>i < length (active_connections ?self).
      sent (?send (active_connections ?self ! i) ''update''
              (world_after ?send ''update'' (take i (active_connections ?self)) (\<lambda>c. [])))"
    by (simp add: faulty_send_def)
  have h3: "sent (?send 1 ''update'' (world_after ?send ''update'' [] (\<lambda>c. [])))"
    "sent (?send 2 ''update'' (world_after ?send ''update'' [1] (\<lambda>c. [])))"
    "sent (?send 3 ''update'' (world_after ?send ''update'' [1, 2] (\<lambda>c. [])))"
    by (simp_all add: faulty_send_def)
  have v: "world_after ?send ''update'' [1, 2, 3] (\<lambda>c. []) 2 = [''update'']"
    by (simp add: world_after_def faulty_send_def)
  from broadcast_without_failure_keeps_registry [OF h]
  have "broadcast ?send ''update'' ?self (\<lambda>c. [])
       = Inr (?self, world_after ?send ''update'' [1, 2, 3] (\<lambda>c. []),
              [(1, True), (2, True), (3, True)])" by simp
  with h3 v show ?thesis by (intro conjI)
qed

text \<open>
  Claim C9, as stated, fails: \<open>disconnect\<close> of a connection that is not registered raises
  ValueError, as \<open>list.remove\<close> does.
\<close>

theorem disconnect_absent_raises_counterexample:
  "disconnect 7 \<lparr>active_connections = [1, 2, 3]\<rparr> = Inl ValueError"
  by (simp add: disconnect_def)

text \<open>
  Claim C9, amended. \<open>disconnect\<close> of a registered connection removes its first
  registration and keeps every other entry in order; in a registry that holds every
  connection once, exactly that connection is gone. \<open>disconnect\<close> of a connection that
  is not registered raises ValueError.
\<close>

theorem disconnect_removes_or_raises:
  "(websocket \<in> set (active_connections self) \<longrightarrow>
      disconnect websocket self
        = Inr (self\<lparr>active_connections := remove1 websocket (active_connections self)\<rparr>)
      \<and> (distinct (active_connections self) \<longrightarrow>
           remove1 websocket (active_connections self)
             = filter (\<lambda>c. c \<noteq> websocket) (active_connections self)))
   \<and> (websocket \<notin> set (active_connections self) \<longrightarrow>
        disconnect websocket self = Inl ValueError)"
  by (simp add: disconnect_def list_remove_mem list_remove_absent remove1_filter_distinct)

theorem disconnect_removes_or_raises_witness:
  "(2 \<in> set (active_connections \<lparr>active_connections = [1, 2, 3]\<rparr>)
    \<and> distinct (active_connections \<lparr>active_connections = [1, 2, 3]\<rparr>)
    \<and> disconnect 2 \<lparr>active_connections = [1, 2, 3]\<rparr> = Inr \<lparr>active_connections = [1, 3]\<rparr>)
   \<and> (2 \<notin> set (active_connections \<lparr>active_connections = [1, 3]\<rparr>)
    \<and> disconnect 2 \<lparr>active_connections = [1, 3]\<rparr> = Inl ValueError)"
  using disconnect_removes_or_raises [of 2 "\<lparr>active_connections = [1, 2, 3]\<rparr>"]
    disconnect_removes_or_raises [of 2 "\<lparr>active_connections = [1, 3]\<rparr>"]
  by simp

section \<open>Properties of the hotspot detector\<close>

lemma sq_dist_sym: "sq_dist a b = sq_dist b a"
  by (simp add: sq_dist_def power2_commute)

lemma sq_dist_truncate [simp]:
  "sq_dist c (grid_cell.truncate h) = sq_dist c h"
  "sq_dist (grid_cell.truncate h) c = sq_dist h c"
  by (simp_all add: sq_dist_def grid_cell.truncate_def)

lemma is_near_iff: "is_near cell added = (\<exists>e \<in> set added. sq_dist cell e < 0.01)"
  by (induction added) (auto simp: Let_def)

lemma cluster_keeps: "set hotspots \<subseteq> set (cluster cells hotspots added)"
  by (induction cells hotspots added rule: cluster.induct) auto

lemma cluster_length:
  "length hotspots \<le> 5 \<Longrightarrow> length (cluster cells hotspots added) \<le> 5"
  by (induction cells hotspots added rule: cluster.induct) auto

lemma cluster_source:
  "map grid_cell.truncate hotspots = added \<Longrightarrow>
     set (map grid_cell.truncate (cluster cells hotspots added)) \<subseteq> set added \<union> set cells"
proof (induction cells hotspots added rule: cluster.induct)
  case (1 hotspots added)
  then show ?case by auto
next
  case (2 cell rest hotspots added)
  show ?case
  proof (cases "length hotspots \<ge> 5")
    case True
    then show ?thesis using "2.prems" by auto
  next
    case False
    show ?thesis
    proof (cases "is_near cell added")
      case True
      then show ?thesis using False "2.IH"(2) "2.prems" by auto
    next
      case near: False
      let ?h = "\<lparr>lat = lat cell, lon = lon cell, aqi = aqi cell,
                 hotspot_id = ''hotspot_'' @ str_nat (length hotspots + 1),
                 hotspot_type = ''Hotspot'', radius = 500\<rparr>"
      have th: "grid_cell.truncate ?h = cell" by (simp add: grid_cell.truncate_def)
      have "map grid_cell.truncate (hotspots @ [?h])
          = map grid_cell.truncate hotspots @ [grid_cell.truncate ?h]" by simp
      also have "\<dots> = added @ [cell]" by (simp only: "2.prems" th)
      finally have "map grid_cell.truncate (hotspots @ [?h]) = added @ [cell]" .
      from "2.IH"(1) [OF False _ this] near
      have "set (map grid_cell.truncate (cluster rest (hotspots @ [?h]) (added @ [cell])))
          \<subseteq> set (added @ [cell]) \<union> set rest" by simp
      moreover have "cluster (cell # rest) hotspots added
          = cluster rest (hotspots @ [?h]) (added @ [cell])"
        using near False by simp
      ultimately show ?thesis by auto
    qed
  qed
qed


lemma cluster_separated:
  "map grid_cell.truncate hotspots = added \<Longrightarrow>
   sorted_wrt (\<lambda>a b. 0.01 \<le> sq_dist a b) added \<Longrightarrow>
     sorted_wrt (\<lambda>a b. 0.01 \<le> sq_dist a b)
       (map grid_cell.truncate (cluster cells hotspots added))"
proof (induction cells hotspots added rule: cluster.induct)
  case (1 hotspots added)
  then show ?case by simp
next
  case (2 cell rest hotspots added)
  show ?case
  proof (cases "length hotspots \<ge> 5")
    case True
    then show ?thesis using "2.prems" by simp
  next
    case False
    show ?thesis
    proof (cases "is_near cell added")
      case True
      then show ?thesis using False "2.IH"(2) "2.prems" by simp
    next
      case near: False
      let ?h = "\<lparr>lat = lat cell, lon = lon cell, aqi = aqi cell,
                 hotspot_id = ''hotspot_'' @ str_nat (length hotspots + 1),
                 hotspot_type = ''Hotspot'', radius = 500\<rparr>"
      have th: "grid_cell.truncate ?h = cell" by (simp add: grid_cell.truncate_def)
      have "map grid_cell.truncate (hotspots @ [?h])
          = map grid_cell.truncate hotspots @ [grid_cell.truncate ?h]" by simp
      also have "\<dots> = added @ [cell]" by (simp only: "2.prems"(1) th)
      finally have link: "map grid_cell.truncate (hotspots @ [?h]) = added @ [cell]" .
      have "\<forall>e \<in> set added. 0.01 \<le> sq_dist e cell"
      proof
        fix e assume "e \<in> set added"
        with near have "\<not> sq_dist cell e < 0.01" by (auto simp: is_near_iff)
        then show "0.01 \<le> sq_dist e cell" by (simp add: sq_dist_sym [of e cell])
      qed
      then have sep: "sorted_wrt (\<lambda>a b. 0.01 \<le> sq_dist a b) (added @ [cell])"
        using "2.prems"(2) by (simp add: sorted_wrt_append)
      have "cluster (cell # rest) hotspots added
          = cluster rest (hotspots @ [?h]) (added @ [cell])"
        using near False by simp
      with "2.IH"(1) [OF False _ link sep] near show ?thesis by simp
    qed
  qed
qed

lemma cluster_maximal:
  "map grid_cell.truncate hotspots = added \<Longrightarrow>
   length (cluster cells hotspots added) < 5 \<Longrightarrow>
     \<forall>c \<in> set cells. \<exists>h \<in> set (cluster cells hotspots added). sq_dist c h < 0.01"
proof (induction cells hotspots added rule: cluster.induct)
  case (1 hotspots added)
  then show ?case by simp
next
  case (2 cell rest hotspots added)
  show ?case
  proof (cases "length hotspots \<ge> 5")
    case True
    then have "cluster (cell # rest) hotspots added = hotspots" by simp
    with "2.prems"(2) True show ?thesis by simp
  next
    case False
    show ?thesis
    proof (cases "is_near cell added")
      case True
      have eq: "cluster (cell # rest) hotspots added = cluster rest hotspots added"
        using True False by simp
      from True obtain e where e: "e \<in> set added" "sq_dist cell e < 0.01"
        by (auto simp: is_near_iff)
      from e(1) "2.prems"(1) obtain h where h: "h \<in> set hotspots" "e = grid_cell.truncate h"
        by auto
      have "h \<in> set (cluster rest hotspots added)" using h(1) cluster_keeps by blast
      moreover have "sq_dist cell h < 0.01" using e(2) h(2) by simp
      ultimately have first: "\<exists>h \<in> set (cluster rest hotspots added). sq_dist cell h < 0.01"
        by blast
      have "length (cluster rest hotspots added) < 5" using "2.prems"(2) eq by simp
      from "2.IH"(2) [OF False _ "2.prems"(1) this] True
      have "\<forall>c \<in> set rest. \<exists>h \<in> set (cluster rest hotspots added). sq_dist c h < 0.01"
        by simp
      with first show ?thesis unfolding eq by simp
    next
      case near: False
      let ?h = "\<lparr>lat = lat cell, lon = lon cell, aqi = aqi cell,
                 hotspot_id = ''hotspot_'' @ str_nat (length hotspots + 1),
                 hotspot_type = ''Hotspot'', radius = 500\<rparr>"
      have th: "grid_cell.truncate ?h = cell" by (simp add: grid_cell.truncate_def)
      have "map grid_cell.truncate (hotspots @ [?h])
          = map grid_cell.truncate hotspots @ [grid_cell.truncate ?h]" by simp
      also have "\<dots> = added @ [cell]" by (simp only: "2.prems"(1) th)
      finally have link: "map grid_cell.truncate (hotspots @ [?h]) = added @ [cell]" .
      have eq: "cluster (cell # rest) hotspots added
          = cluster rest (hotspots @ [?h]) (added @ [cell])"
        using near False by simp
      have "?h \<in> set (cluster rest (hotspots @ [?h]) (added @ [cell]))"
        using cluster_keeps [of "hotspots @ [?h]" rest "added @ [cell]"] by auto
      moreover have "sq_dist cell ?h < 0.01" by (simp add: sq_dist_def)
      ultimately have first:
        "\<exists>h \<in> set (cluster rest (hotspots @ [?h]) (added @ [cell])). sq_dist cell h < 0.01"
        by blast
      have "length (cluster rest (hotspots @ [?h]) (added @ [cell])) < 5"
        using "2.prems"(2) eq by simp
      from "2.IH"(1) [OF False _ link this] near
      have "\<forall>c \<in> set rest.
              \<exists>h \<in> set (cluster rest (hotspots @ [?h]) (added @ [cell])). sq_dist c h < 0.01"
        by simp
      with first show ?thesis unfolding eq by simp
    qed
  qed
qed

lemma sorted_wrt_sym_nth:
  assumes "sorted_wrt P xs" and "\<And>a b. P a b \<Longrightarrow> P b a"
    and "i < length xs" and "j < length xs" and "i \<noteq> j"
  shows "P (xs ! i) (xs ! j)"
proof (cases "i < j")
  case True
  with assms(1,4) show ?thesis by (simp add: sorted_wrt_iff_nth_less)
next
  case False
  with assms(5) have "j < i" by simp
  with assms(1,3) have "P (xs ! j) (xs ! i)" by (simp add: sorted_wrt_iff_nth_less)
  then show ?thesis by (rule assms(2))
qed

lemma detect_hotspots_cluster:
  "fst (detect_hotspots cells)
     = cluster (sort_key (\<lambda>x. - aqi x) (filter (\<lambda>cell. aqi cell > 200) cells)) [] []"
  by (simp add: detect_hotspots_def Let_def)

lemma scenario_hotspots:
  "fst (detect_hotspots
     [\<lparr>lat = 28.65, lon = 77.32, aqi = 380\<rparr>, \<lparr>lat = 28.628, lon = 77.241, aqi = 310\<rparr>,
      \<lparr>lat = 28.545, lon = 77.273, aqi = 295\<rparr>, \<lparr>lat = 28.5, lon = 77.1, aqi = 150\<rparr>])
   = [\<lparr>lat = 28.65, lon = 77.32, aqi = 380, hotspot_id = ''hotspot_1'',
       hotspot_type = ''Hotspot'', radius = 500\<rparr>,
      \<lparr>lat = 28.545, lon = 77.273, aqi = 295, hotspot_id = ''hotspot_2'',
       hotspot_type = ''Hotspot'', radius = 500\<rparr>]"
  by (simp add: detect_hotspots_def sq_dist_def power2_eq_square digit_def)

text \<open>
  Claim C2. For every list of scored cells, with coordinates and AQI taken as real numbers,
  the detector returns at most five hotspots; any two different returned hotspots are at
  squared degree-distance at least 0.01; every hotspot is a cell of the input with AQI
  above 200; and the walk ends only at five hotspots or at the end of the candidates: when
  fewer than five hotspots are returned, every input cell with AQI above 200 was accepted
  or lies within 0.01 of a returned hotspot.
\<close>

theorem detect_hotspots_bounded_separated:
  assumes hs: "hs = fst (detect_hotspots cells)"
  shows "length hs \<le> 5
    \<and> (\<forall>i j. i < length hs \<and> j < length hs \<and> i \<noteq> j \<longrightarrow> 0.01 \<le> sq_dist (hs ! i) (hs ! j))
    \<and> (\<forall>h \<in> set hs. aqi h > 200 \<and> grid_cell.truncate h \<in> set cells)
    \<and> (length hs < 5 \<longrightarrow>
          (\<forall>c \<in> set cells. aqi c > 200 \<longrightarrow> (\<exists>h \<in> set hs. sq_dist c h < 0.01)))"
proof -
  let ?cands = "sort_key (\<lambda>x. - aqi x) (filter (\<lambda>cell. aqi cell > 200) cells)"
  have eq: "hs = cluster ?cands [] []" using hs by (simp only: detect_hotspots_cluster)
  have cands: "set ?cands = {c \<in> set cells. aqi c > 200}" by auto
  have len: "length hs \<le> 5" unfolding eq by (rule cluster_length) simp
  have "sorted_wrt (\<lambda>a b. 0.01 \<le> sq_dist a b) (map grid_cell.truncate hs)"
    unfolding eq by (rule cluster_separated) simp_all
  then have sw: "sorted_wrt (\<lambda>a b. 0.01 \<le> sq_dist a b) hs"
    by (simp add: sorted_wrt_map)
  have sep: "\<forall>i j. i < length hs \<and> j < length hs \<and> i \<noteq> j \<longrightarrow> 0.01 \<le> sq_dist (hs ! i) (hs ! j)"
  proof (intro allI impI)
    fix i j assume ij: "i < length hs \<and> j < length hs \<and> i \<noteq> j"
    show "0.01 \<le> sq_dist (hs ! i) (hs ! j)"
    proof (rule sorted_wrt_sym_nth [OF sw])
      fix a b :: hotspot
      assume "0.01 \<le> sq_dist a b"
      then show "0.01 \<le> sq_dist b a" by (simp add: sq_dist_sym [of a b])
    qed (use ij in simp_all)
  qed
  have "set (map grid_cell.truncate hs) \<subseteq> set [] \<union> set ?cands"
    unfolding eq by (rule cluster_source) simp
  then have sub: "set (map grid_cell.truncate hs) \<subseteq> {c \<in> set cells. aqi c > 200}"
    unfolding cands by simp
  have src: "\<forall>h \<in> set hs. aqi h > 200 \<and> grid_cell.truncate h \<in> set cells"
  proof (intro ballI)
    fix h assume "h \<in> set hs"
    then have "grid_cell.truncate h \<in> set (map grid_cell.truncate hs)" by simp
    then have "grid_cell.truncate h \<in> {c \<in> set cells. aqi c > 200}"
      by (rule subsetD [OF sub])
    then have "grid_cell.truncate h \<in> set cells" "aqi (grid_cell.truncate h) > 200"
      by simp_all
    then show "aqi h > 200 \<and> grid_cell.truncate h \<in> set cells"
      by (simp add: grid_cell.truncate_def)
  qed
  have mx: "length hs < 5 \<longrightarrow>
          (\<forall>c \<in> set cells. aqi c > 200 \<longrightarrow> (\<exists>h \<in> set hs. sq_dist c h < 0.01))"
  proof (intro impI ballI)
    fix c assume l: "length hs < 5" and c: "c \<in> set cells" "aqi c > 200"
    have "\<forall>c \<in> set ?cands. \<exists>h \<in> set (cluster ?cands [] []). sq_dist c h < 0.01"
      by (rule cluster_maximal) (use l eq in simp_all)
    moreover have "c \<in> set ?cands" using c unfolding cands by simp
    ultimately have "\<exists>h \<in> set (cluster ?cands [] []). sq_dist c h < 0.01" by (rule bspec)
    then show "\<exists>h \<in> set hs. sq_dist c h < 0.01" unfolding eq .
  qed
  from len sep src mx show ?thesis by (intro conjI)
qed

text \<open>
  The witness runs the detector on four cells: the second is suppressed by the first, the
  fourth is below the threshold.
\<close>

theorem detect_hotspots_bounded_separated_witness:
  "fst (detect_hotspots
     [\<lparr>lat = 28.65, lon = 77.32, aqi = 380\<rparr>, \<lparr>lat = 28.628, lon = 77.241, aqi = 310\<rparr>,
      \<lparr>lat = 28.545, lon = 77.273, aqi = 295\<rparr>, \<lparr>lat = 28.5, lon = 77.1, aqi = 150\<rparr>])
   = [\<lparr>lat = 28.65, lon = 77.32, aqi = 380, hotspot_id = ''hotspot_1'',
       hotspot_type = ''Hotspot'', radius = 500\<rparr>,
      \<lparr>lat = 28.545, lon = 77.273, aqi = 295, hotspot_id = ''hotspot_2'',
       hotspot_type = ''Hotspot'', radius = 500\<rparr>]
   \<and> 0.01 \<le> sq_dist
        \<lparr>lat = 28.65, lon = 77.32, aqi = 380, hotspot_id = ''hotspot_1'',
         hotspot_type = ''Hotspot'', radius = 500\<rparr>
        \<lparr>lat = 28.545, lon = 77.273, aqi = 295, hotspot_id = ''hotspot_2'',
         hotspot_type = ''Hotspot'', radius = 500\<rparr>
   \<and> (\<exists>h \<in> set (fst (detect_hotspots
          [\<lparr>lat = 28.65, lon = 77.32, aqi = 380\<rparr>, \<lparr>lat = 28.628, lon = 77.241, aqi = 310\<rparr>,
           \<lparr>lat = 28.545, lon = 77.273, aqi = 295\<rparr>, \<lparr>lat = 28.5, lon = 77.1, aqi = 150\<rparr>])).
          sq_dist \<lparr>lat = 28.628, lon = 77.241, aqi = 310\<rparr> h < 0.01)"
proof -
  let ?cells = "[\<lparr>lat = 28.65, lon = 77.32, aqi = 380\<rparr>, \<lparr>lat = 28.628, lon = 77.241, aqi = 310\<rparr>,
      \<lparr>lat = 28.545, lon = 77.273, aqi = 295\<rparr>, \<lparr>lat = 28.5, lon = 77.1, aqi = 150\<rparr>]"
  let ?hs = "fst (detect_hotspots ?cells)"
  note t = detect_hotspots_bounded_separated [OF refl, of ?cells]
  have e: "?hs = [\<lparr>lat = 28.65, lon = 77.32, aqi = 380, hotspot_id = ''hotspot_1'',
       hotspot_type = ''Hotspot'', radius = 500\<rparr>,
      \<lparr>lat = 28.545, lon = 77.273, aqi = 295, hotspot_id = ''hotspot_2'',
       hotspot_type = ''Hotspot'', radius = 500\<rparr>]"
    by (rule scenario_hotspots)
  have l: "(0::nat) < length ?hs \<and> 1 < length ?hs \<and> (0::nat) \<noteq> 1" unfolding e by simp
  from t have "\<forall>i j. i < length ?hs \<and> j < length ?hs \<and> i \<noteq> j
      \<longrightarrow> 0.01 \<le> sq_dist (?hs ! i) (?hs ! j)" by (rule conjunct2 [THEN conjunct1])
  then have "0.01 \<le> sq_dist (?hs ! 0) (?hs ! 1)" using l by blast
  then have a: "0.01 \<le> sq_dist
        \<lparr>lat = 28.65, lon = 77.32, aqi = 380, hotspot_id = ''hotspot_1'',
         hotspot_type = ''Hotspot'', radius = 500\<rparr>
        \<lparr>lat = 28.545, lon = 77.273, aqi = 295, hotspot_id = ''hotspot_2'',
         hotspot_type = ''Hotspot'', radius = 500\<rparr>" unfolding e by simp
  from t have m: "length ?hs < 5 \<longrightarrow>
          (\<forall>c \<in> set ?cells. aqi c > 200 \<longrightarrow> (\<exists>h \<in> set ?hs. sq_dist c h < 0.01))"
    by (rule conjunct2 [THEN conjunct2, THEN conjunct2])
  have "length ?hs < 5" unfolding e by simp
  with m have "\<forall>c \<in> set ?cells. aqi c > 200 \<longrightarrow> (\<exists>h \<in> set ?hs. sq_dist c h < 0.01)" ..
  moreover have "\<lparr>lat = 28.628, lon = 77.241, aqi = 310\<rparr> \<in> set ?cells" by simp
  ultimately have "aqi \<lparr>lat = 28.628, lon = 77.241, aqi = 310\<rparr> > 200
      \<longrightarrow> (\<exists>h \<in> set ?hs. sq_dist \<lparr>lat = 28.628, lon = 77.241, aqi = 310\<rparr> h < 0.01)"
    by (rule bspec)
  then have b: "\<exists>h \<in> set ?hs. sq_dist \<lparr>lat = 28.628, lon = 77.241, aqi = 310\<rparr> h < 0.01"
    by simp
  from e a b show ?thesis by (intro conjI)
qed

section \<open>Properties of the predictive model\<close>

lemma mock_predict_ok:
  assumes "2 \<le> ncols a"
  shows "\<exists>ps. mock_predict a m = (Inr ps, m\<lparr>noise := (\<lambda>i. noise m (i + length (rows a)))\<rparr>)
           \<and> length ps = length (rows a)"
  using assms by (simp add: mock_predict_def column_def Let_def)

lemma predict_fallback:
  assumes "regressor_in_use m = None" and "2 \<le> ncols a"
  shows "\<exists>ps. predict a m = (Inr ps, m\<lparr>noise := (\<lambda>i. noise m (i + length (rows a)))\<rparr>)
           \<and> length ps = length (rows a)"
proof -
  from assms(1) have "model m = None" "artifact m = None"
    by (simp_all add: regressor_in_use_def split: option.splits)
  then have "predict a m = mock_predict a m" by (simp add: predict_def load_def)
  with mock_predict_ok [OF assms(2)] show ?thesis by simp
qed

lemma predict_regressor:
  assumes "regressor_in_use m = Some r"
  shows "predict a m = (r a, m\<lparr>model := Some r\<rparr>)"
proof (cases "model m")
  case None
  with assms have "artifact m = Some r" by (simp add: regressor_in_use_def)
  with None show ?thesis by (simp add: predict_def load_def run_model_def)
next
  case (Some r')
  with assms have "r' = r" by (simp add: regressor_in_use_def)
  with Some show ?thesis by (simp add: predict_def run_model_def)
qed

lemma predict_total:
  assumes "scoring_total m" and "ncols a = 6" and "rows a \<noteq> []"
  shows "\<exists>ps m'. predict a m = (Inr ps, m') \<and> length ps = length (rows a) \<and> scoring_total m'"
proof (cases "regressor_in_use m")
  case None
  let ?m' = "m\<lparr>noise := (\<lambda>i. noise m (i + length (rows a)))\<rparr>"
  from predict_fallback [OF None, of a] assms(2) obtain ps where
    ps: "predict a m = (Inr ps, ?m')" "length ps = length (rows a)" by auto
  have "regressor_in_use ?m' = None"
    using None by (simp add: regressor_in_use_def split: option.splits)
  then have "scoring_total ?m'" by (simp add: scoring_total_def)
  with ps show ?thesis by (intro exI conjI)
next
  case (Some r)
  let ?m' = "m\<lparr>model := Some r\<rparr>"
  from assms Some obtain ps where ps: "r a = Inr ps" "length ps = length (rows a)"
    unfolding scoring_total_def by blast
  have p: "predict a m = (Inr ps, ?m')" using predict_regressor [OF Some, of a] ps(1) by simp
  have "regressor_in_use ?m' = Some r" by (simp add: regressor_in_use_def)
  then have "scoring_total ?m'" using assms(1) Some unfolding scoring_total_def by simp
  with p ps(2) show ?thesis by (intro exI conjI)
qed

section \<open>Properties of the forecast\<close>

lemma threshold_pass_eq:
  "threshold_pass fs acc = acc @ map threshold_alert (filter (\<lambda>p. fp_aqi p > 200) fs)"
  unfolding threshold_pass_def
  by (induction fs arbitrary: acc) (simp_all add: threshold_alert_def)

lemma volatility_fold_eq:
  "fold (\<lambda>i acc.
             (let aqi_change = fp_aqi (fs ! (i + 1)) - fp_aqi (fs ! i)
              in if \<bar>aqi_change\<bar> > 50 then
                   acc @ [\<lparr>severity = ''medium'',
                           time = fp_timestamp (fs ! (i + 1)),
                           message = [Lit ''Rapid AQI change expected: '',
                                      Lit (if aqi_change > 0 then ''+'' else []),
                                      Num (round1 aqi_change)],
                           recommendation = ''Monitor conditions closely''\<rparr>]
                 else acc)) is acc
   = acc @ map volatility_alert
       (filter (\<lambda>pq. \<bar>fp_aqi (snd pq) - fp_aqi (fst pq)\<bar> > 50)
          (map (\<lambda>i. (fs ! i, fs ! (i + 1))) is))"
  by (induction "is" arbitrary: acc) (simp_all add: volatility_alert_def Let_def)

lemma zip_tl_nth: "zip ps (tl ps) = map (\<lambda>i. (ps ! i, ps ! (i + 1))) [0..<length ps - 1]"
proof (rule nth_equalityI)
  show "length (zip ps (tl ps)) = length (map (\<lambda>i. (ps ! i, ps ! (i + 1))) [0..<length ps - 1])"
    by simp
next
  fix i assume "i < length (zip ps (tl ps))"
  then have i: "i < length ps - 1" by simp
  then show "zip ps (tl ps) ! i = map (\<lambda>i. (ps ! i, ps ! (i + 1))) [0..<length ps - 1] ! i"
    by (simp add: nth_tl)
qed

lemma volatility_pass_eq:
  "volatility_pass fs acc
     = acc @ map volatility_alert
         (filter (\<lambda>pq. \<bar>fp_aqi (snd pq) - fp_aqi (fst pq)\<bar> > 50) (zip fs (tl fs)))"
  unfolding volatility_pass_def volatility_fold_eq zip_tl_nth ..

text \<open>
  Claim C6. For every list of forecast points, the alerts computed by the two loops of
  \<open>_generate_alerts\<close> are the first ten of: one alert per point with AQI above 200, in
  point order, of severity high above 250 and medium otherwise, followed by one medium
  alert per consecutive pair whose AQI difference exceeds 50 in absolute value, stamped at
  the later point and carrying the signed, rounded change.
\<close>

theorem generate_alerts_is_spec_alerts: "generate_alerts ps = spec_alerts ps"
  by (simp add: generate_alerts_def spec_alerts_def threshold_pass_eq volatility_pass_eq)

lemma add_hours_ok:
  "0 \<le> t + int h * usec_per_hour \<Longrightarrow> t + int h * usec_per_hour \<le> datetime_max \<Longrightarrow>
     add_hours t h = Inr (t + int h * usec_per_hour)"
  by (simp add: add_hours_def Let_def)

lemma forecast_loop_ok:
  assumes "scoring_total m"
    and "\<forall>h \<in> set hs. 0 \<le> now + int h * usec_per_hour
                      \<and> now + int h * usec_per_hour \<le> datetime_max"
  shows "\<exists>fs m'. forecast_loop la lo now hs acc m = (Inr (acc @ fs), m')
           \<and> map fp_timestamp fs = map (\<lambda>h. now + int h * usec_per_hour) hs
           \<and> scoring_total m'"
  using assms
proof (induction hs arbitrary: acc m)
  case Nil
  then show ?case by simp
next
  case (Cons h rest)
  let ?t = "now + int h * usec_per_hour"
  let ?features = "\<lparr>ncols = 6,
                  rows = [[la, lo, real (hour_of ?t), real (weekday ?t),
                           estimate_traffic (hour_of ?t) (weekday ?t),
                           estimate_temperature (hour_of ?t)]]\<rparr>"
  have ah: "add_hours now h = Inr ?t" using Cons.prems(2) by (simp add: add_hours_ok)
  have "\<exists>ps m'. predict ?features m = (Inr ps, m') \<and> length ps = length (rows ?features)
          \<and> scoring_total m'"
    by (rule predict_total [OF Cons.prems(1)]) simp_all
  then obtain ps m1 where p: "predict ?features m = (Inr ps, m1)" "length ps = 1"
    and st: "scoring_total m1" by auto
  from p(2) obtain v where ps: "ps = [v]" by (cases ps) auto
  let ?pt = "\<lparr>fp_timestamp = ?t, fp_hour = hour_label ?t, fp_date = date_of ?t,
              fp_aqi = round1 v, fp_category = get_category v,
              fp_traffic_level = traffic_level (estimate_traffic (hour_of ?t) (weekday ?t)),
              fp_temperature = round1 (estimate_temperature (hour_of ?t))\<rparr>"
  have step: "forecast_loop la lo now (h # rest) acc m
      = forecast_loop la lo now rest (acc @ [?pt]) m1"
    using ah p(1) ps by (simp add: Let_def)
  have "\<forall>h \<in> set rest. 0 \<le> now + int h * usec_per_hour
                      \<and> now + int h * usec_per_hour \<le> datetime_max"
    using Cons.prems(2) by simp
  from Cons.IH [OF st this, of "acc @ [?pt]"] obtain fs m' where
    r: "forecast_loop la lo now rest (acc @ [?pt]) m1 = (Inr ((acc @ [?pt]) @ fs), m')"
       "map fp_timestamp fs = map (\<lambda>h. now + int h * usec_per_hour) rest"
       "scoring_total m'" by blast
  have "forecast_loop la lo now (h # rest) acc m = (Inr (acc @ (?pt # fs)), m')"
    using step r(1) by simp
  moreover have "map fp_timestamp (?pt # fs) = map (\<lambda>h. now + int h * usec_per_hour) (h # rest)"
    using r(2) by simp
  ultimately show ?case using r(3) by (intro exI conjI)
qed

lemma fold_min_mem: "fold min xs (x::real) \<in> set (x # xs)"
proof (induction xs arbitrary: x)
  case Nil
  show ?case by simp
next
  case (Cons y ys)
  have "fold min ys (min y x) \<in> set (min y x # ys)" by (rule Cons.IH)
  moreover have "min y x = y \<or> min y x = x" by (auto simp: min_def)
  ultimately show ?case by auto
qed

lemma fold_max_mem: "fold max xs (x::real) \<in> set (x # xs)"
proof (induction xs arbitrary: x)
  case Nil
  show ?case by simp
next
  case (Cons y ys)
  have "fold max ys (max y x) \<in> set (max y x # ys)" by (rule Cons.IH)
  moreover have "max y x = y \<or> max y x = x" by (auto simp: max_def)
  ultimately show ?case by auto
qed

lemma py_min_ok: "xs \<noteq> [] \<Longrightarrow> \<exists>v. py_min xs = Inr v \<and> v \<in> set xs"
  using fold_min_mem by (cases xs) (auto simp: py_min_def)

lemma py_max_ok: "xs \<noteq> [] \<Longrightarrow> \<exists>v. py_max xs = Inr v \<and> v \<in> set xs"
  using fold_max_mem by (cases xs) (auto simp: py_max_def)

lemma py_index_ok: "v \<in> set xs \<Longrightarrow> \<exists>i. py_index xs v = Inr i \<and> i < length xs"
  by (induction xs) auto

lemma build_statistics_ok:
  assumes "fs \<noteq> []"
  shows "\<exists>st. build_statistics fs = Inr st"
proof -
  let ?vs = "map fp_aqi fs"
  have ne: "?vs \<noteq> []" using assms by simp
  from py_min_ok [OF ne] obtain lo where lo: "py_min ?vs = Inr lo" "lo \<in> set ?vs" by blast
  from py_max_ok [OF ne] obtain hi where hi: "py_max ?vs = Inr hi" "hi \<in> set ?vs" by blast
  from py_index_ok [OF hi(2)] obtain iw where iw: "py_index ?vs hi = Inr iw" "iw < length ?vs"
    by blast
  from py_index_ok [OF lo(2)] obtain ib where ib: "py_index ?vs lo = Inr ib" "ib < length ?vs"
    by blast
  have avg: "py_avg ?vs = Inr (sum_list ?vs / real (length ?vs))" using ne by (simp add: py_avg_def)
  have "py_item fs iw = Inr (fs ! iw)" "py_item fs ib = Inr (fs ! ib)"
    using iw(2) ib(2) by (simp_all add: py_item_def)
  with lo(1) hi(1) iw(1) ib(1) avg show ?thesis
    by (simp add: build_statistics_def Let_def)
qed

lemma daily_append_nonempty:
  "\<forall>g \<in> set daily. snd g \<noteq> [] \<Longrightarrow> \<forall>g \<in> set (daily_append d a daily). snd g \<noteq> []"
  by (induction d a daily rule: daily_append.induct) auto

lemma group_fold_nonempty:
  "\<forall>g \<in> set daily. snd g \<noteq> [] \<Longrightarrow>
     \<forall>g \<in> set (fold (\<lambda>forecast daily. daily_append (fp_date forecast) (fp_aqi forecast) daily)
                  fs daily). snd g \<noteq> []"
proof (induction fs arbitrary: daily)
  case Nil
  then show ?case by simp
next
  case (Cons f fs)
  have "\<forall>g \<in> set (daily_append (fp_date f) (fp_aqi f) daily). snd g \<noteq> []"
    using Cons.prems by (rule daily_append_nonempty)
  from Cons.IH [OF this] show ?case by simp
qed

lemma summaries_ok: "\<forall>g \<in> set daily. snd g \<noteq> [] \<Longrightarrow> \<exists>ds. summaries daily = Inr ds"
proof (induction daily rule: summaries.induct)
  case 1
  show ?case by simp
next
  case (2 d aqi_values rest)
  from "2.prems" have ne: "aqi_values \<noteq> []" by simp
  from py_min_ok [OF ne] obtain lo where lo: "py_min aqi_values = Inr lo" by blast
  from py_max_ok [OF ne] obtain hi where hi: "py_max aqi_values = Inr hi" by blast
  have avg: "py_avg aqi_values = Inr (sum_list aqi_values / real (length aqi_values))"
    using ne by (simp add: py_avg_def)
  have "\<forall>g \<in> set rest. snd g \<noteq> []" using "2.prems" by simp
  from "2.IH" [OF lo hi avg this] obtain ds where "summaries rest = Inr ds" by blast
  with lo hi avg show ?case by simp
qed

lemma get_daily_summary_ok: "\<exists>ds. get_daily_summary fs = Inr ds"
  unfolding get_daily_summary_def group_daily_def
  by (rule summaries_ok, rule group_fold_nonempty) simp

lemma hourly_stamps_increasing:
  "sorted_wrt (<) (map (\<lambda>h. now + int h * usec_per_hour) [0..<n])"
  by (simp add: sorted_wrt_iff_nth_less usec_per_hour_def)

text \<open>
  Claim C5. For every location, when the clock reading and the 47 hours after it are
  instants that \<open>datetime\<close> can hold and the regressor in use, if any, keeps its contract,
  \<open>get_forecast\<close> of a freshly constructed service returns a result whose list of
  points has exactly 48 entries; entry \<open>h\<close> is stamped \<open>now + h hours\<close>, so the
  timestamps increase strictly.
\<close>

theorem get_forecast_48_points:
  assumes "scoring_total m" and "0 \<le> now" and "now + 47 * usec_per_hour \<le> datetime_max"
  shows "\<exists>res m'. get_forecast la lo now (ForecastService_init m) = (Inr res, m')
      \<and> length (forecasts res) = 48
      \<and> (\<forall>h < 48. fp_timestamp (forecasts res ! h) = now + int h * usec_per_hour)
      \<and> sorted_wrt (<) (map fp_timestamp (forecasts res))"
proof -
  have range: "\<forall>h \<in> set [0..<48]. 0 \<le> now + int h * usec_per_hour
                      \<and> now + int h * usec_per_hour \<le> datetime_max"
  proof
    fix h :: nat assume "h \<in> set [0..<48]"
    then have "int h \<le> 47" by simp
    then have "int h * usec_per_hour \<le> 47 * usec_per_hour"
      by (simp add: usec_per_hour_def)
    moreover have "0 \<le> int h * usec_per_hour" by (simp add: usec_per_hour_def)
    ultimately show "0 \<le> now + int h * usec_per_hour
        \<and> now + int h * usec_per_hour \<le> datetime_max"
      using assms(2,3) by linarith
  qed
  from forecast_loop_ok [OF assms(1) range, of la lo "[]"] obtain fs m' where
    loop: "forecast_loop la lo now [0..<48] [] m = (Inr fs, m')"
    and stamps: "map fp_timestamp fs = map (\<lambda>h. now + int h * usec_per_hour) [0..<48]"
    by auto
  from stamps have "length (map fp_timestamp fs) = length [0..<(48::nat)]" by simp
  then have len: "length fs = 48" by simp
  then have "fs \<noteq> []" by auto
  from build_statistics_ok [OF this] obtain st where st: "build_statistics fs = Inr st" ..
  from get_daily_summary_ok obtain ds where ds: "get_daily_summary fs = Inr ds" ..
  let ?res = "\<lparr>location = (la, lo), generated_at = now, forecasts = fs, stats = st,
               daily_summary = ds, alerts = generate_alerts fs\<rparr>"
  have r: "get_forecast la lo now (ForecastService_init m) = (Inr ?res, m')"
    using loop st ds by (simp add: get_forecast_def ForecastService_init_def)
  have nth: "\<forall>h < 48. fp_timestamp (forecasts ?res ! h) = now + int h * usec_per_hour"
  proof (intro allI impI)
    fix h :: nat assume h: "h < 48"
    then have "fp_timestamp (fs ! h) = map fp_timestamp fs ! h" using len by simp
    also have "\<dots> = now + int h * usec_per_hour" unfolding stamps using h by simp
    finally show "fp_timestamp (forecasts ?res ! h) = now + int h * usec_per_hour" by simp
  qed
  have inc: "sorted_wrt (<) (map fp_timestamp (forecasts ?res))"
    using hourly_stamps_increasing [of now 48] stamps by simp
  have "length (forecasts ?res) = 48" using len by simp
  with r nth inc show ?thesis by (intro exI conjI)
qed

text \<open>
  The witness: no trained artifact on disk (the fallback scoring), a clock reading in the
  year 2025.
\<close>

theorem get_forecast_48_points_witness:
  "scoring_total (AirQualityModel_init None (\<lambda>i. 0))
   \<and> (0::int) \<le> 63900000000000000
   \<and> 63900000000000000 + 47 * usec_per_hour \<le> datetime_max
   \<and> (\<exists>res m'. get_forecast 28.6139 77.2090 63900000000000000
                   (ForecastService_init (AirQualityModel_init None (\<lambda>i. 0))) = (Inr res, m')
         \<and> length (forecasts res) = 48
         \<and> fp_timestamp (forecasts res ! 47) = 63900000000000000 + 47 * usec_per_hour)"
proof -
  have a: "scoring_total (AirQualityModel_init None (\<lambda>i. 0))"
    by (simp add: scoring_total_def regressor_in_use_def AirQualityModel_init_def)
  have b: "(0::int) \<le> 63900000000000000" by simp
  have c: "63900000000000000 + 47 * usec_per_hour \<le> datetime_max"
    by (simp add: usec_per_hour_def datetime_max_def)
  from get_forecast_48_points [OF a b c, of "28.6139" "77.2090"] obtain res m' where
    r: "get_forecast 28.6139 77.2090 63900000000000000
          (ForecastService_init (AirQualityModel_init None (\<lambda>i. 0))) = (Inr res, m')"
       "length (forecasts res) = 48"
       "\<forall>h < 48. fp_timestamp (forecasts res ! h) = 63900000000000000 + int h * usec_per_hour"
    by blast
  from r(3) have "fp_timestamp (forecasts res ! 47) = 63900000000000000 + int 47 * usec_per_hour"
    by simp
  then have "fp_timestamp (forecasts res ! 47) = 63900000000000000 + 47 * usec_per_hour"
    by simp
  with r(1,2) a b c show ?thesis by blast
qed

section \<open>Properties of grid generation\<close>

lemma arange_ok:
  "s \<noteq> 0 \<Longrightarrow>
     arange a b s = Inr (map (\<lambda>i. a + real i * s) [0..<nat \<lceil>(b - a) / s\<rceil>])"
  by (simp add: arange_def)

lemma meshgrid_flat_zip:
  "meshgrid_flat lats lons = (fl, flo) \<Longrightarrow>
     length fl = length lons * length lats \<and> length flo = length lons * length lats
     \<and> zip fl flo = concat (map (\<lambda>lo. map (\<lambda>la. (la, lo)) lats) lons)"
proof (induction lons arbitrary: fl flo)
  case Nil
  then show ?case by (simp add: meshgrid_flat_def)
next
  case (Cons lo lons)
  obtain fl' flo' where r: "meshgrid_flat lats lons = (fl', flo')"
    by (cases "meshgrid_flat lats lons")
  from Cons.IH [OF r] have ih: "length fl' = length lons * length lats"
    "length flo' = length lons * length lats"
    "zip fl' flo' = concat (map (\<lambda>lo. map (\<lambda>la. (la, lo)) lats) lons)" by simp_all
  from Cons.prems r have fl: "fl = lats @ fl'" and flo: "flo = map (\<lambda>la. lo) lats @ flo'"
    by (simp_all add: meshgrid_flat_def)
  have z: "zip lats (map (\<lambda>la. lo) lats) = map (\<lambda>la. (la, lo)) lats"
    by (induction lats) simp_all
  have "zip fl flo = zip lats (map (\<lambda>la. lo) lats) @ zip fl' flo'"
    unfolding fl flo by (simp add: zip_append)
  then have "zip fl flo = concat (map (\<lambda>lo. map (\<lambda>la. (la, lo)) lats) (lo # lons))"
    using z ih(3) by simp
  moreover have "length fl = length (lo # lons) * length lats" using fl ih(1) by simp
  moreover have "length flo = length (lo # lons) * length lats" using flo ih(2) by simp
  ultimately show ?case by (intro conjI)
qed

lemma build_grid_ok:
  "length flo = length fl \<Longrightarrow> length ps = length fl \<Longrightarrow>
     \<exists>cells. build_grid fl flo ps = Inr cells
       \<and> map (\<lambda>c. (lat c, lon c)) cells = zip fl flo \<and> map aqi cells = ps"
proof (induction fl flo ps rule: build_grid.induct)
  case (1 flat_lon predictions)
  then show ?case by simp
next
  case (2 la las predictions)
  then show ?case by simp
next
  case (3 la las lo los)
  then show ?case by simp
next
  case (4 la las lo los p ps)
  then obtain cells where "build_grid las los ps = Inr cells"
    "map (\<lambda>c. (lat c, lon c)) cells = zip las los" "map aqi cells = ps" by auto
  then show ?case by simp
qed

lemma predict_rows:
  assumes "ncols a = 6"
    and "rows a \<noteq> [] \<and> scoring_total m \<or> regressor_in_use m = None"
  shows "\<exists>ps m'. predict a m = (Inr ps, m') \<and> length ps = length (rows a)"
proof (cases "regressor_in_use m = None")
  case True
  from predict_fallback [OF True, of a] assms(1) show ?thesis by auto
next
  case False
  with assms(2) have "rows a \<noteq> []" "scoring_total m" by simp_all
  from predict_total [OF this(2) assms(1) this(1)] show ?thesis by blast
qed

lemma get_full_grid_result:
  assumes res: "resolution svc \<noteq> 0"
    and tlat: "tlat = (case lat_arg of Some v \<Rightarrow> v | None \<Rightarrow> center_lat svc)"
    and tlon: "tlon = (case lon_arg of Some v \<Rightarrow> v | None \<Rightarrow> center_lon svc)"
    and rad: "rad = (case radius_km of Some v \<Rightarrow> v | None \<Rightarrow> 25)"
    and box: "bounding_box tlat tlon rad = (lo_lat, hi_lat, lo_lon, hi_lon)"
    and lats: "lats = map (\<lambda>i. lo_lat + real i * resolution svc)
                        [0..<nat \<lceil>(hi_lat - lo_lat) / resolution svc\<rceil>]"
    and lons: "lons = map (\<lambda>i. lo_lon + real i * resolution svc)
                        [0..<nat \<lceil>(hi_lon - lo_lon) / resolution svc\<rceil>]"
    and good: "lats \<noteq> [] \<and> lons \<noteq> [] \<and> scoring_total (ps_model svc)
               \<or> regressor_in_use (ps_model svc) = None"
  shows "\<exists>cells m'.
      get_full_grid lat_arg lon_arg radius_km now stamp svc
        = (Inr \<lparr>timestamp = stamp, grid = cells, center = (tlat, tlon),
                count = length cells\<rparr>, m')
      \<and> map (\<lambda>c. (lat c, lon c)) cells = concat (map (\<lambda>lo. map (\<lambda>la. (la, lo)) lats) lons)"
proof -
  obtain fl flo where mg: "meshgrid_flat lats lons = (fl, flo)"
    by (cases "meshgrid_flat lats lons")
  from meshgrid_flat_zip [OF mg] have len: "length fl = length lons * length lats"
    "length flo = length lons * length lats"
    and z: "zip fl flo = concat (map (\<lambda>lo. map (\<lambda>la. (la, lo)) lats) lons)" by simp_all
  let ?features = "\<lparr>ncols = 6,
      rows = map2 (\<lambda>la lo. [la, lo, real (hour_of now), real (weekday now),
                             get_mock_traffic la lo tlat tlon, 25.0]) fl flo\<rparr>"
  have nrows: "length (rows ?features) = length fl" using len by simp
  have "rows ?features \<noteq> [] \<and> scoring_total (ps_model svc)
        \<or> regressor_in_use (ps_model svc) = None"
  proof (cases "regressor_in_use (ps_model svc) = None")
    case True
    then show ?thesis by simp
  next
    case False
    with good have g: "lats \<noteq> []" "lons \<noteq> []" "scoring_total (ps_model svc)" by simp_all
    then have "length fl \<noteq> 0" using len by simp
    then have "rows ?features \<noteq> []" using nrows by (metis length_0_conv)
    with g(3) show ?thesis by simp
  qed
  from predict_rows [OF _ this] obtain ps m' where
    p: "predict ?features (ps_model svc) = (Inr ps, m')" "length ps = length (rows ?features)"
    by auto
  have "length flo = length fl" "length ps = length fl" using len p(2) nrows by simp_all
  from build_grid_ok [OF this] obtain cells where
    c: "build_grid fl flo ps = Inr cells" "map (\<lambda>c. (lat c, lon c)) cells = zip fl flo"
    by blast
  have a1: "arange lo_lat hi_lat (resolution svc) = Inr lats"
    using res lats by (simp add: arange_ok)
  have a2: "arange lo_lon hi_lon (resolution svc) = Inr lons"
    using res lons by (simp add: arange_ok)
  have "get_full_grid lat_arg lon_arg radius_km now stamp svc
        = (Inr \<lparr>timestamp = stamp, grid = cells, center = (tlat, tlon),
                count = length cells\<rparr>, m')"
    unfolding get_full_grid_def Let_def tlat [symmetric] tlon [symmetric] rad [symmetric]
    using p(1) c(1) by (simp add: box a1 a2 mg)
  with c(2) z show ?thesis by (intro exI conjI) simp_all
qed

lemma length_concat_rows:
  "length (concat (map (\<lambda>lo. map (f lo) lats) lons)) = length lons * length lats"
  by (induction lons) simp_all

lemma below_ceiling: "i < nat \<lceil>x::real\<rceil> \<Longrightarrow> real i < x"
proof -
  assume "i < nat \<lceil>x\<rceil>"
  then have "int i < \<lceil>x\<rceil>" by simp
  then have "of_int (int i) < x" by (simp only: less_ceiling_iff)
  then show ?thesis by simp
qed

lemma bounding_box_fields:
  "bounding_box c_lat c_lon r = (lo_lat, hi_lat, lo_lon, hi_lon) \<Longrightarrow>
     lo_lat = c_lat - r / 111 \<and> hi_lat = c_lat + r / 111
     \<and> lo_lon = c_lon - r / (111 * cos (radians c_lat))
     \<and> hi_lon = c_lon + r / (111 * cos (radians c_lat))"
  by (auto simp: bounding_box_def Let_def)

lemma lattice_in_box:
  assumes "0 < s" and "v \<in> set (map (\<lambda>i. lo + real i * s) [0..<nat \<lceil>(hi - lo) / s\<rceil>])"
  shows "lo \<le> v \<and> v < hi"
proof -
  from assms(2) obtain i where i: "i < nat \<lceil>(hi - lo) / s\<rceil>" "v = lo + real i * s" by auto
  from below_ceiling [OF i(1)] have "real i < (hi - lo) / s" .
  then have "real i * s < hi - lo" using assms(1) by (simp add: pos_less_divide_eq)
  moreover have "0 \<le> real i * s" using assms(1) by simp
  ultimately show ?thesis using i(2) by simp
qed

lemma grid_lattice:
  assumes r: "0 < r" and s: "0 < resolution svc" and c: "0 < cos (radians tlat)"
    and tlat: "tlat = (case lat_arg of Some v \<Rightarrow> v | None \<Rightarrow> center_lat svc)"
    and tlon: "tlon = (case lon_arg of Some v \<Rightarrow> v | None \<Rightarrow> center_lon svc)"
    and box: "bounding_box tlat tlon r = (lo_lat, hi_lat, lo_lon, hi_lon)"
    and ok: "scoring_total (ps_model svc)"
  shows "\<exists>res m'.
      get_full_grid lat_arg lon_arg (Some r) now stamp svc = (Inr res, m')
      \<and> count res = length (grid res)
      \<and> int (count res)
          = \<lceil>(2 * r / 111) / resolution svc\<rceil>
            * \<lceil>(2 * r / (111 * cos (radians tlat))) / resolution svc\<rceil>
      \<and> map (\<lambda>c. (lat c, lon c)) (grid res)
          = concat (map (\<lambda>j. map (\<lambda>i. (lo_lat + real i * resolution svc,
                                        lo_lon + real j * resolution svc))
                            [0..<nat \<lceil>(2 * r / 111) / resolution svc\<rceil>])
                     [0..<nat \<lceil>(2 * r / (111 * cos (radians tlat))) / resolution svc\<rceil>])
      \<and> (\<forall>c \<in> set (grid res). lo_lat \<le> lat c \<and> lat c \<le> hi_lat
                                \<and> lo_lon \<le> lon c \<and> lon c \<le> hi_lon)"
proof -
  let ?s = "resolution svc"
  let ?xlat = "(2 * r / 111) / ?s" and ?xlon = "(2 * r / (111 * cos (radians tlat))) / ?s"
  let ?lats = "map (\<lambda>i. lo_lat + real i * ?s) [0..<nat \<lceil>(hi_lat - lo_lat) / ?s\<rceil>]"
  let ?lons = "map (\<lambda>i. lo_lon + real i * ?s) [0..<nat \<lceil>(hi_lon - lo_lon) / ?s\<rceil>]"
  from bounding_box_fields [OF box] have
    dlat: "hi_lat - lo_lat = 2 * r / 111"
    and dlon: "hi_lon - lo_lon = 2 * r / (111 * cos (radians tlat))" by simp_all
  have plat: "0 < ?xlat" using r s by simp
  have plon: "0 < ?xlon" using r s c by simp
  from plat have clat: "0 < \<lceil>?xlat\<rceil>" by (simp add: less_ceiling_iff)
  from plon have clon: "0 < \<lceil>?xlon\<rceil>" by (simp add: less_ceiling_iff)
  have nlat: "length ?lats = nat \<lceil>?xlat\<rceil>" by (simp add: dlat)
  have nlon: "length ?lons = nat \<lceil>?xlon\<rceil>" by (simp add: dlon)
  have ne: "?lats \<noteq> []" "?lons \<noteq> []" using nlat nlon clat clon by auto
  have good: "?lats \<noteq> [] \<and> ?lons \<noteq> [] \<and> scoring_total (ps_model svc)
               \<or> regressor_in_use (ps_model svc) = None"
    using ne ok by simp
  have s0: "?s \<noteq> 0" using s by simp
  have rad: "r = (case Some r of Some v \<Rightarrow> v | None \<Rightarrow> 25)" by simp
  from get_full_grid_result [OF s0 tlat tlon rad box refl refl good, of now stamp]
  obtain cells m' where
    g: "get_full_grid lat_arg lon_arg (Some r) now stamp svc
          = (Inr \<lparr>timestamp = stamp, grid = cells, center = (tlat, tlon),
                  count = length cells\<rparr>, m')"
    and lattice: "map (\<lambda>c. (lat c, lon c)) cells
          = concat (map (\<lambda>lo. map (\<lambda>la. (la, lo)) ?lats) ?lons)"
    by blast
  let ?res = "\<lparr>timestamp = stamp, grid = cells, center = (tlat, tlon), count = length cells\<rparr>"
  have "length cells = length (map (\<lambda>c. (lat c, lon c)) cells)" by simp
  also have "\<dots> = length ?lons * length ?lats"
    unfolding lattice by (rule length_concat_rows)
  finally have len: "length cells = nat \<lceil>?xlon\<rceil> * nat \<lceil>?xlat\<rceil>"
    unfolding nlat nlon .
  have cnt: "int (count ?res) = \<lceil>?xlat\<rceil> * \<lceil>?xlon\<rceil>"
    using len clat clon by simp
  have lat2: "map (\<lambda>c. (lat c, lon c)) (grid ?res)
          = concat (map (\<lambda>j. map (\<lambda>i. (lo_lat + real i * ?s, lo_lon + real j * ?s))
                            [0..<nat \<lceil>?xlat\<rceil>]) [0..<nat \<lceil>?xlon\<rceil>])"
    using lattice by (simp add: dlat dlon o_def)
  have inbox: "\<forall>c \<in> set (grid ?res). lo_lat \<le> lat c \<and> lat c \<le> hi_lat
                                \<and> lo_lon \<le> lon c \<and> lon c \<le> hi_lon"
  proof
    fix c assume "c \<in> set (grid ?res)"
    then have "(lat c, lon c) \<in> set (map (\<lambda>c. (lat c, lon c)) cells)" by auto
    then have "(lat c, lon c) \<in> set (concat (map (\<lambda>lo. map (\<lambda>la. (la, lo)) ?lats) ?lons))"
      unfolding lattice .
    then have "lat c \<in> set ?lats" "lon c \<in> set ?lons" by auto
    from lattice_in_box [OF s this(1)] lattice_in_box [OF s this(2)]
    show "lo_lat \<le> lat c \<and> lat c \<le> hi_lat \<and> lo_lon \<le> lon c \<and> lon c \<le> hi_lon"
      by simp
  qed
  have "count ?res = length (grid ?res)" by simp
  with g cnt lat2 inbox show ?thesis by (intro exI conjI)
qed

lemma sum_below_4: "(\<Sum>m<(4::nat). g m) = g 0 + g 1 + g 2 + (g 3 :: real)"
  by (simp add: eval_nat_numeral)

lemma sum_below_2: "(\<Sum>m<(2::nat). g m) = g 0 + (g 1 :: real)"
  by (simp add: eval_nat_numeral)

lemma cos_upper_bound:
  assumes "0 < (x::real)"
  shows "cos x \<le> 1 - x\<^sup>2 / 2 + x ^ 4 / 24"
proof -
  from Maclaurin_cos_expansion2 [OF assms, of 4] obtain t where
    "cos x = (\<Sum>m<4. cos_coeff m * x ^ m) + (cos (t + 1/2 * real 4 * pi) / fact 4) * x ^ 4"
    by auto
  moreover have "(\<Sum>m<4. cos_coeff m * x ^ m) = 1 - x\<^sup>2 / 2"
    unfolding sum_below_4 by (simp add: cos_coeff_def)
  moreover have "cos (t + 1/2 * real 4 * pi) = cos t" by simp
  moreover have "fact 4 = (24::real)" by (simp add: fact_numeral)
  ultimately have e: "cos x = 1 - x\<^sup>2 / 2 + cos t / 24 * x ^ 4" by simp
  have "cos t * x ^ 4 \<le> 1 * x ^ 4" by (rule mult_right_mono) simp_all
  then show ?thesis unfolding e by simp
qed

lemma cos_lower_bound:
  assumes "0 < (x::real)"
  shows "1 - x\<^sup>2 / 2 \<le> cos x"
proof -
  from Maclaurin_cos_expansion2 [OF assms, of 2] obtain t where
    "cos x = (\<Sum>m<2. cos_coeff m * x ^ m) + (cos (t + 1/2 * real 2 * pi) / fact 2) * x ^ 2"
    by auto
  moreover have "(\<Sum>m<2. cos_coeff m * x ^ m) = 1"
    unfolding sum_below_2 by (simp add: cos_coeff_def)
  moreover have "cos (t + 1/2 * real 2 * pi) = - cos t" by simp
  moreover have "fact 2 = (2::real)" by (simp add: fact_numeral)
  ultimately have e: "cos x = 1 - cos t / 2 * x\<^sup>2" by simp
  have "cos t * x\<^sup>2 \<le> 1 * x\<^sup>2" by (rule mult_right_mono) simp_all
  then show ?thesis unfolding e by simp
qed

lemma pi_ge_three: "3 \<le> pi"
proof -
  have "sin (pi / 6) \<le> pi / 6" by (rule sin_x_le_x) simp
  then show ?thesis by (simp add: sin_30)
qed

lemma delhi_angle: "0.4768 < radians 28.6139 \<and> radians 28.6139 < 0.636"
  using pi_ge_three pi_less_4 by (simp add: radians_def)

lemma delhi_cos: "80 / 111 \<le> cos (radians 28.6139) \<and> cos (radians 28.6139) < 100 / 111"
proof -
  let ?x = "radians 28.6139"
  from delhi_angle have lo: "0.4768 < ?x" and hi: "?x < 0.636" by simp_all
  then have pos: "0 < ?x" by simp
  have sq_hi: "?x\<^sup>2 < 0.636\<^sup>2" using hi pos by (simp add: power_strict_mono)
  have sq_lo: "0.4768\<^sup>2 < ?x\<^sup>2" using lo by (simp add: power_strict_mono)
  have p4: "?x ^ 4 < 0.636 ^ 4" using hi pos by (simp add: power_strict_mono)
  have "cos ?x \<le> 1 - ?x\<^sup>2 / 2 + ?x ^ 4 / 24" by (rule cos_upper_bound [OF pos])
  also have "\<dots> < 1 - 0.4768\<^sup>2 / 2 + 0.636 ^ 4 / 24" using sq_lo p4 by simp
  also have "\<dots> < 100 / 111" by (simp add: power2_eq_square eval_nat_numeral)
  finally have up: "cos ?x < 100 / 111" .
  have "(80::real) / 111 \<le> 1 - 0.636\<^sup>2 / 2" by (simp add: power2_eq_square)
  also have "\<dots> \<le> 1 - ?x\<^sup>2 / 2" using sq_hi by simp
  also have "\<dots> \<le> cos ?x" by (rule cos_lower_bound [OF pos])
  finally show ?thesis using up by simp
qed

lemma fallback_model_simps:
  "regressor_in_use fallback_model = None" "scoring_total fallback_model"
  by (simp_all add: fallback_model_def AirQualityModel_init_def regressor_in_use_def
      scoring_total_def)

lemma default_service_simps:
  "resolution (default_service m) = 0.005" "ps_model (default_service m) = m"
  by (simp_all add: default_service_def PredictionService_init_def split: prod.splits)

lemma delhi_lat_steps: "\<lceil>(2 * 1 / 111) / (0.005::real)\<rceil> = 4"
  by (rule ceiling_unique) simp_all

lemma delhi_lon_steps: "\<lceil>(2 * 1 / (111 * cos (radians 28.6139))) / (0.005::real)\<rceil> = 5"
proof (rule ceiling_unique)
  let ?c = "cos (radians 28.6139)"
  from delhi_cos have lo: "80 / 111 \<le> ?c" and hi: "?c < 100 / 111" by simp_all
  then have pos: "0 < ?c" by simp
  have "4 * (111 * ?c) < 400" using hi by simp
  then have "4 < 400 / (111 * ?c)" using pos by (simp add: pos_less_divide_eq)
  then show "of_int 5 - 1 < (2 * 1 / (111 * ?c)) / (0.005::real)" by simp
  have "400 \<le> 5 * (111 * ?c)" using lo by simp
  then have "400 / (111 * ?c) \<le> 5" using pos by (simp add: pos_divide_le_eq)
  then show "(2 * 1 / (111 * ?c)) / (0.005::real) \<le> of_int 5" by simp
qed

lemma delhi_grid:
  assumes "scoring_total m"
  shows "\<exists>res m'.
      get_full_grid (Some 28.6139) (Some 77.2090) (Some 1) now stamp (default_service m)
        = (Inr res, m')
      \<and> count res = 20 \<and> length (grid res) = 20
      \<and> map (\<lambda>c. (lat c, lon c)) (grid res)
          = concat (map (\<lambda>j. map (\<lambda>i. (28.6139 - 1 / 111 + real i * 0.005,
                                        77.2090 - 1 / (111 * cos (radians 28.6139))
                                          + real j * 0.005))
                            [0..<4]) [0..<5])"
proof -
  let ?svc = "default_service m"
  obtain lo_lat hi_lat lo_lon hi_lon where
    box: "bounding_box 28.6139 77.2090 1 = (lo_lat, hi_lat, lo_lon, hi_lon)"
    by (cases "bounding_box 28.6139 77.2090 1") auto
  from bounding_box_fields [OF box] have
    lo: "lo_lat = 28.6139 - 1 / 111" "lo_lon = 77.2090 - 1 / (111 * cos (radians 28.6139))"
    by simp_all
  have c: "0 < cos (radians 28.6139)" using delhi_cos by simp
  have g: "\<exists>res m'.
      get_full_grid (Some 28.6139) (Some 77.2090) (Some 1) now stamp ?svc = (Inr res, m')
      \<and> count res = length (grid res)
      \<and> int (count res)
          = \<lceil>(2 * 1 / 111) / resolution ?svc\<rceil>
            * \<lceil>(2 * 1 / (111 * cos (radians 28.6139))) / resolution ?svc\<rceil>
      \<and> map (\<lambda>c. (lat c, lon c)) (grid res)
          = concat (map (\<lambda>j. map (\<lambda>i. (lo_lat + real i * resolution ?svc,
                                        lo_lon + real j * resolution ?svc))
                            [0..<nat \<lceil>(2 * 1 / 111) / resolution ?svc\<rceil>])
                     [0..<nat \<lceil>(2 * 1 / (111 * cos (radians 28.6139))) / resolution ?svc\<rceil>])
      \<and> (\<forall>c \<in> set (grid res). lo_lat \<le> lat c \<and> lat c \<le> hi_lat
                                \<and> lo_lon \<le> lon c \<and> lon c \<le> hi_lon)"
  proof (rule grid_lattice [where tlon = "77.2090"])
    show "0 < (1::real)" by simp
    show "0 < resolution ?svc" by (simp add: default_service_simps)
    show "0 < cos (radians 28.6139)" by (rule c)
    show "28.6139 = (case Some 28.6139 of Some v \<Rightarrow> v | None \<Rightarrow> center_lat ?svc)"
      by (simp only: option.case)
    show "77.2090 = (case Some 77.2090 of Some v \<Rightarrow> v | None \<Rightarrow> center_lon ?svc)"
      by (simp only: option.case)
    show "bounding_box 28.6139 77.2090 1 = (lo_lat, hi_lat, lo_lon, hi_lon)" by (rule box)
    show "scoring_total (ps_model ?svc)" using assms by (simp add: default_service_simps)
  qed
  then obtain res m' where
    r: "get_full_grid (Some 28.6139) (Some 77.2090) (Some 1) now stamp ?svc = (Inr res, m')"
       "count res = length (grid res)"
       "int (count res)
          = \<lceil>(2 * 1 / 111) / resolution ?svc\<rceil>
            * \<lceil>(2 * 1 / (111 * cos (radians 28.6139))) / resolution ?svc\<rceil>"
       "map (\<lambda>c. (lat c, lon c)) (grid res)
          = concat (map (\<lambda>j. map (\<lambda>i. (lo_lat + real i * resolution ?svc,
                                        lo_lon + real j * resolution ?svc))
                            [0..<nat \<lceil>(2 * 1 / 111) / resolution ?svc\<rceil>])
                     [0..<nat \<lceil>(2 * 1 / (111 * cos (radians 28.6139))) / resolution ?svc\<rceil>])"
    by blast
  have n: "count res = 20"
    using r(3) unfolding default_service_simps delhi_lat_steps delhi_lon_steps by simp
  have l: "map (\<lambda>c. (lat c, lon c)) (grid res)
          = concat (map (\<lambda>j. map (\<lambda>i. (28.6139 - 1 / 111 + real i * 0.005,
                                        77.2090 - 1 / (111 * cos (radians 28.6139))
                                          + real j * 0.005))
                            [0..<4]) [0..<5])"
    using r(4) unfolding default_service_simps delhi_lat_steps delhi_lon_steps lo by simp
  from r(1) n r(2) l show ?thesis by (intro exI conjI) simp_all
qed

lemma nonpositive_radius_empty:
  assumes r: "r \<le> 0" and s: "0 < resolution svc"
    and fb: "regressor_in_use (ps_model svc) = None"
    and tlat: "tlat = (case lat_arg of Some v \<Rightarrow> v | None \<Rightarrow> center_lat svc)"
    and tlon: "tlon = (case lon_arg of Some v \<Rightarrow> v | None \<Rightarrow> center_lon svc)"
  shows "\<exists>m'. get_full_grid lat_arg lon_arg (Some r) now stamp svc
           = (Inr \<lparr>timestamp = stamp, grid = [], center = (tlat, tlon), count = 0\<rparr>, m')"
proof -
  let ?s = "resolution svc"
  obtain lo_lat hi_lat lo_lon hi_lon where
    box: "bounding_box tlat tlon r = (lo_lat, hi_lat, lo_lon, hi_lon)"
    by (cases "bounding_box tlat tlon r") auto
  let ?lats = "map (\<lambda>i. lo_lat + real i * ?s) [0..<nat \<lceil>(hi_lat - lo_lat) / ?s\<rceil>]"
  let ?lons = "map (\<lambda>i. lo_lon + real i * ?s) [0..<nat \<lceil>(hi_lon - lo_lon) / ?s\<rceil>]"
  from bounding_box_fields [OF box] have "hi_lat - lo_lat = 2 * r / 111" by simp
  then have "(hi_lat - lo_lat) / ?s \<le> 0" using r s by (simp add: divide_nonpos_pos)
  then have "\<lceil>(hi_lat - lo_lat) / ?s\<rceil> \<le> 0" by (simp add: ceiling_le_iff)
  then have e: "?lats = []" by simp
  have s0: "?s \<noteq> 0" using s by simp
  have rad: "r = (case Some r of Some v \<Rightarrow> v | None \<Rightarrow> 25)" by simp
  have good: "?lats \<noteq> [] \<and> ?lons \<noteq> [] \<and> scoring_total (ps_model svc)
               \<or> regressor_in_use (ps_model svc) = None" using fb by simp
  from get_full_grid_result [OF s0 tlat tlon rad box refl refl good, of now stamp]
  obtain cells m' where
    g: "get_full_grid lat_arg lon_arg (Some r) now stamp svc
          = (Inr \<lparr>timestamp = stamp, grid = cells, center = (tlat, tlon),
                  count = length cells\<rparr>, m')"
    and lattice: "map (\<lambda>c. (lat c, lon c)) cells
          = concat (map (\<lambda>lo. map (\<lambda>la. (la, lo)) ?lats) ?lons)"
    by blast
  have "length (map (\<lambda>c. (lat c, lon c)) cells) = length ?lons * length ?lats"
    unfolding lattice by (rule length_concat_rows)
  then have "length cells = 0" unfolding e by simp
  then have "cells = []" by simp
  with g show ?thesis by simp
qed

lemma box_orientation:
  assumes box: "bounding_box c_lat c_lon r = (lo_lat, hi_lat, lo_lon, hi_lon)"
  shows "(0 < r \<and> 0 < cos (radians c_lat) \<longrightarrow> lo_lat < hi_lat \<and> lo_lon < hi_lon)
       \<and> (r \<le> 0 \<longrightarrow> hi_lat \<le> lo_lat)"
proof -
  from bounding_box_fields [OF box] have
    f: "lo_lat = c_lat - r / 111" "hi_lat = c_lat + r / 111"
       "lo_lon = c_lon - r / (111 * cos (radians c_lat))"
       "hi_lon = c_lon + r / (111 * cos (radians c_lat))" by simp_all
  have "0 < r \<and> 0 < cos (radians c_lat) \<longrightarrow> 0 < r / (111 * cos (radians c_lat))" by simp
  then show ?thesis unfolding f by auto
qed

text \<open>
  Claim C4, amended. For the centre (28.6139, 77.2090), radius 1 km and resolution 0.005,
  grid generation returns exactly 20 cells: 4 latitudes for each of 5 longitudes, since
  \<open>(2/111)/0.005\<close> is about 3.6 and \<open>(2/(111 cos lat))/0.005\<close> lies between 4 and 5.
\<close>

theorem delhi_grid_has_20_cells:
  assumes "scoring_total m"
  shows "\<exists>res m'.
      get_full_grid (Some 28.6139) (Some 77.2090) (Some 1) now stamp (default_service m)
        = (Inr res, m')
      \<and> count res = 20 \<and> length (grid res) = 20
      \<and> map (\<lambda>c. (lat c, lon c)) (grid res)
          = concat (map (\<lambda>j. map (\<lambda>i. (28.6139 - 1 / 111 + real i * 0.005,
                                        77.2090 - 1 / (111 * cos (radians 28.6139))
                                          + real j * 0.005))
                            [0..<4]) [0..<5])"
  using assms by (rule delhi_grid)

text \<open>
  The witness uses the fallback scoring.
\<close>

theorem delhi_grid_has_20_cells_witness:
  "scoring_total fallback_model
   \<and> (\<exists>res m'. get_full_grid (Some 28.6139) (Some 77.2090) (Some 1) 0 0
                   (default_service fallback_model) = (Inr res, m')
         \<and> count res = 20 \<and> length (grid res) = 20)"
proof -
  have a: "scoring_total fallback_model" by (rule fallback_model_simps)
  from delhi_grid_has_20_cells [OF a, of 0 0] a show ?thesis by blast
qed

text \<open>
  Claim C4, as stated, fails: the count for this scenario is 20, not 4.
\<close>

theorem delhi_grid_count_counterexample:
  "map_sum id count
     (fst (get_full_grid (Some 28.6139) (Some 77.2090) (Some 1) 0 0
            (default_service fallback_model))) = Inr 20"
proof -
  from delhi_grid [OF fallback_model_simps(2), of 0 0] obtain res m' where
    "get_full_grid (Some 28.6139) (Some 77.2090) (Some 1) 0 0 (default_service fallback_model)
       = (Inr res, m')" "count res = 20" by blast
  then show ?thesis by simp
qed

text \<open>
  Claim C8, as stated, fails: with radius 0 the call is not rejected but returns an empty
  grid, and the box it builds has equal minimum and maximum on both axes.
\<close>

theorem radius_not_validated_counterexample:
  "fst (get_full_grid (Some 28.6139) (Some 77.2090) (Some 0) 0 0
         (default_service fallback_model))
     = Inr \<lparr>timestamp = 0, grid = [], center = (28.6139, 77.2090), count = 0\<rparr>
   \<and> bounding_box 28.6139 77.2090 0 = (28.6139, 28.6139, 77.2090, 77.2090)"
proof -
  have "\<exists>m'. get_full_grid (Some 28.6139) (Some 77.2090) (Some 0) 0 0
           (default_service fallback_model)
         = (Inr \<lparr>timestamp = 0, grid = [], center = (28.6139, 77.2090), count = 0\<rparr>, m')"
    by (rule nonpositive_radius_empty)
      (simp_all add: default_service_simps fallback_model_simps)
  then have "fst (get_full_grid (Some 28.6139) (Some 77.2090) (Some 0) 0 0
         (default_service fallback_model))
     = Inr \<lparr>timestamp = 0, grid = [], center = (28.6139, 77.2090), count = 0\<rparr>"
    by auto
  moreover have "bounding_box 28.6139 77.2090 0 = (28.6139, 28.6139, 77.2090, 77.2090)"
    by (simp add: bounding_box_def Let_def)
  ultimately show ?thesis by (rule conjI)
qed

text \<open>
  Claim C8, amended. The box built from a radius \<open>r > 0\<close> at a centre whose latitude has a
  positive cosine has its minimum below its maximum on both axes. A radius \<open>r \<le> 0\<close> is
  not rejected: the box then has its maximal latitude at or below the minimal one, and with
  a positive resolution and the fallback scoring the call returns an empty grid with count
  0.
\<close>

theorem nonpositive_radius_not_rejected:
  assumes tlat: "tlat = (case lat_arg of Some v \<Rightarrow> v | None \<Rightarrow> center_lat svc)"
    and tlon: "tlon = (case lon_arg of Some v \<Rightarrow> v | None \<Rightarrow> center_lon svc)"
    and box: "bounding_box tlat tlon r = (lo_lat, hi_lat, lo_lon, hi_lon)"
  shows "(0 < r \<and> 0 < cos (radians tlat) \<longrightarrow> lo_lat < hi_lat \<and> lo_lon < hi_lon)
    \<and> (r \<le> 0 \<longrightarrow>
         hi_lat \<le> lo_lat
         \<and> (0 < resolution svc \<and> regressor_in_use (ps_model svc) = None \<longrightarrow>
              (\<exists>m'. get_full_grid lat_arg lon_arg (Some r) now stamp svc
                      = (Inr \<lparr>timestamp = stamp, grid = [], center = (tlat, tlon),
                              count = 0\<rparr>, m'))))"
proof -
  from box_orientation [OF box] have
    a: "0 < r \<and> 0 < cos (radians tlat) \<longrightarrow> lo_lat < hi_lat \<and> lo_lon < hi_lon"
    and b: "r \<le> 0 \<longrightarrow> hi_lat \<le> lo_lat" by simp_all
  have c: "r \<le> 0 \<longrightarrow> (0 < resolution svc \<and> regressor_in_use (ps_model svc) = None \<longrightarrow>
              (\<exists>m'. get_full_grid lat_arg lon_arg (Some r) now stamp svc
                      = (Inr \<lparr>timestamp = stamp, grid = [], center = (tlat, tlon),
                              count = 0\<rparr>, m')))"
  proof (intro impI)
    assume "r \<le> 0" and "0 < resolution svc \<and> regressor_in_use (ps_model svc) = None"
    then show "\<exists>m'. get_full_grid lat_arg lon_arg (Some r) now stamp svc
                      = (Inr \<lparr>timestamp = stamp, grid = [], center = (tlat, tlon),
                              count = 0\<rparr>, m')"
      using tlat tlon by (intro nonpositive_radius_empty) simp_all
  qed
  from a b c show ?thesis by blast
qed

text \<open>
  The witness: radius 0 at the default centre, and radius 1 at centre (0, 0).
\<close>

theorem nonpositive_radius_not_rejected_witness:
  "((0::real) \<le> 0 \<and> 0 < resolution (default_service fallback_model)
      \<and> regressor_in_use (ps_model (default_service fallback_model)) = None
      \<and> bounding_box 28.6139 77.2090 0 = (28.6139, 28.6139, 77.2090, 77.2090)
      \<and> (\<exists>m'. get_full_grid (Some 28.6139) (Some 77.2090) (Some 0) 0 0
                 (default_service fallback_model)
               = (Inr \<lparr>timestamp = 0, grid = [], center = (28.6139, 77.2090), count = 0\<rparr>, m')))
   \<and> ((0::real) < 1 \<and> 0 < cos (radians 0)
      \<and> bounding_box 0 0 1 = (- (1 / 111), 1 / 111, - (1 / 111), 1 / 111)
      \<and> - (1 / 111) < (1 / 111 :: real))"
proof -
  let ?svc = "default_service fallback_model"
  have b1: "bounding_box 28.6139 77.2090 0 = (28.6139, 28.6139, 77.2090, 77.2090)"
    by (simp add: bounding_box_def Let_def)
  have b2: "bounding_box 0 0 1 = (- (1 / 111), 1 / 111, - (1 / 111), 1 / 111)"
    by (simp add: bounding_box_def radians_def Let_def)
  have tl: "28.6139 = (case Some 28.6139 of Some v \<Rightarrow> v | None \<Rightarrow> center_lat ?svc)"
    and tn: "77.2090 = (case Some 77.2090 of Some v \<Rightarrow> v | None \<Rightarrow> center_lon ?svc)"
    by (simp_all only: option.case)
  have tl0: "0 = (case Some 0 of Some v \<Rightarrow> v | None \<Rightarrow> center_lat ?svc)"
    and tn0: "0 = (case Some 0 of Some v \<Rightarrow> v | None \<Rightarrow> center_lon ?svc)"
    by simp_all
  have h: "(0::real) \<le> 0" "0 < resolution ?svc" "regressor_in_use (ps_model ?svc) = None"
    by (simp_all add: default_service_simps fallback_model_simps)
  have p: "(0::real) < 1" "0 < cos (radians 0)" by (simp_all add: radians_def)
  from nonpositive_radius_not_rejected [OF tl tn b1, where now = 0 and stamp = 0] h
  have first: "\<exists>m'. get_full_grid (Some 28.6139) (Some 77.2090) (Some 0) 0 0 ?svc
               = (Inr \<lparr>timestamp = 0, grid = [], center = (28.6139, 77.2090), count = 0\<rparr>, m')"
    by blast
  from nonpositive_radius_not_rejected [OF tl0 tn0 b2, where now = 0 and stamp = 0] p
  have second: "- (1 / 111) < (1 / 111 :: real)" by blast
  from h b1 first p b2 second show ?thesis by (intro conjI)
qed

lemma mock_values:
  assumes "2 \<le> ncols a"
  shows "fst (mock_predict a m)
    = Inr (map (\<lambda>i. 150 + 100 * exp (- sqrt ((rows a ! i ! 0 - 28.6)\<^sup>2
                                              + (rows a ! i ! 1 - 77.2)\<^sup>2) * 10)
                      + noise m i) [0..<length (rows a)])"
proof -
  have "map2 (+) (map (\<lambda>d. 150 + 100 * exp (- d * 10))
                   (map2 (\<lambda>la lo. sqrt ((la - 28.6)\<^sup>2 + (lo - 77.2)\<^sup>2))
                      (map (\<lambda>r. r ! 0) (rows a)) (map (\<lambda>r. r ! 1) (rows a))))
               (map (noise m) [0..<length (rows a)])
       = map (\<lambda>i. 150 + 100 * exp (- sqrt ((rows a ! i ! 0 - 28.6)\<^sup>2
                                              + (rows a ! i ! 1 - 77.2)\<^sup>2) * 10)
                      + noise m i) [0..<length (rows a)]"
    by (rule nth_equalityI) simp_all
  then show ?thesis using assms by (simp add: mock_predict_def column_def Let_def)
qed

section \<open>Properties of scoring\<close>

text \<open>
  Claim C7, as stated, fails: a feature row of seven values is scored by the fallback
  without any error.
\<close>

theorem wrong_arity_is_scored_counterexample:
  "fst (predict \<lparr>ncols = 7, rows = [[28.6, 77.2, 0, 0, 0, 0, 0]]\<rparr> fallback_model) = Inr [250]"
proof -
  have "regressor_in_use fallback_model = None" by (rule fallback_model_simps)
  then have "model fallback_model = None" "artifact fallback_model = None"
    by (simp_all add: regressor_in_use_def split: option.splits)
  then have "predict \<lparr>ncols = 7, rows = [[28.6, 77.2, 0, 0, 0, 0, 0]]\<rparr> fallback_model
      = mock_predict \<lparr>ncols = 7, rows = [[28.6, 77.2, 0, 0, 0, 0, 0]]\<rparr> fallback_model"
    by (simp add: predict_def load_def)
  moreover have "noise fallback_model 0 = 0"
    by (simp add: fallback_model_def AirQualityModel_init_def)
  ultimately show ?thesis by (simp add: mock_values)
qed

text \<open>
  Claim C7, amended. When no regressor is in use, scoring an array of at least two columns
  never raises: it returns, for each row, 150 + 100 exp(-10 dist) plus the next draw of
  noise, whatever the number of further columns and whatever their values; an array of
  fewer than two columns raises IndexError. When a regressor is in use, scoring returns or
  raises exactly as the regressor does. No other error is raised.
\<close>

theorem predict_outcomes:
  "(regressor_in_use m = None \<and> 2 \<le> ncols a \<longrightarrow>
      predict a m
        = (Inr (map (\<lambda>i. 150 + 100 * exp (- sqrt ((rows a ! i ! 0 - 28.6)\<^sup>2
                                                    + (rows a ! i ! 1 - 77.2)\<^sup>2) * 10)
                          + noise m i) [0..<length (rows a)]),
           m\<lparr>noise := (\<lambda>i. noise m (i + length (rows a)))\<rparr>))
   \<and> (regressor_in_use m = None \<and> ncols a < 2 \<longrightarrow> predict a m = (Inl IndexError, m))
   \<and> (regressor_in_use m = Some r \<longrightarrow> predict a m = (r a, m\<lparr>model := Some r\<rparr>))"
proof (intro conjI impI)
  assume h: "regressor_in_use m = None \<and> 2 \<le> ncols a"
  then have n: "model m = None" "artifact m = None"
    by (simp_all add: regressor_in_use_def split: option.splits)
  then have e: "predict a m = mock_predict a m" by (simp add: predict_def load_def)
  from h mock_predict_ok [of a m] have
    "snd (mock_predict a m) = m\<lparr>noise := (\<lambda>i. noise m (i + length (rows a)))\<rparr>" by auto
  moreover from h have "fst (mock_predict a m)
    = Inr (map (\<lambda>i. 150 + 100 * exp (- sqrt ((rows a ! i ! 0 - 28.6)\<^sup>2
                                              + (rows a ! i ! 1 - 77.2)\<^sup>2) * 10)
                      + noise m i) [0..<length (rows a)])"
    by (simp add: mock_values)
  ultimately show "predict a m
        = (Inr (map (\<lambda>i. 150 + 100 * exp (- sqrt ((rows a ! i ! 0 - 28.6)\<^sup>2
                                                    + (rows a ! i ! 1 - 77.2)\<^sup>2) * 10)
                          + noise m i) [0..<length (rows a)]),
           m\<lparr>noise := (\<lambda>i. noise m (i + length (rows a)))\<rparr>)"
    unfolding e by (simp add: prod_eq_iff)
next
  assume h: "regressor_in_use m = None \<and> ncols a < 2"
  then have n: "model m = None" "artifact m = None"
    by (simp_all add: regressor_in_use_def split: option.splits)
  then have e: "predict a m = mock_predict a m" by (simp add: predict_def load_def)
  from h show "predict a m = (Inl IndexError, m)"
    unfolding e by (auto simp: mock_predict_def column_def)
next
  assume "regressor_in_use m = Some r"
  then show "predict a m = (r a, m\<lparr>model := Some r\<rparr>)" by (rule predict_regressor)
qed

text \<open>
  The witness: a six-column row at the reference point, a one-column row, and a regressor
  that rejects its input.
\<close>

theorem predict_outcomes_witness:
  "(regressor_in_use fallback_model = None
      \<and> 2 \<le> ncols \<lparr>ncols = 6, rows = [[28.6, 77.2, 9, 2, 1, 25]]\<rparr>
      \<and> fst (predict \<lparr>ncols = 6, rows = [[28.6, 77.2, 9, 2, 1, 25]]\<rparr> fallback_model) = Inr [250])
   \<and> (ncols \<lparr>ncols = 1, rows = [[28.6]]\<rparr> < 2
      \<and> predict \<lparr>ncols = 1, rows = [[28.6]]\<rparr> fallback_model = (Inl IndexError, fallback_model))
   \<and> (regressor_in_use (AirQualityModel_init (Some (\<lambda>a. Inl ValueError)) (\<lambda>i. 0))
        = Some (\<lambda>a. Inl ValueError)
      \<and> fst (predict \<lparr>ncols = 6, rows = [[28.6, 77.2, 9, 2, 1, 25]]\<rparr>
               (AirQualityModel_init (Some (\<lambda>a. Inl ValueError)) (\<lambda>i. 0))) = Inl ValueError)"
proof -
  have a: "regressor_in_use fallback_model = None" by (rule fallback_model_simps)
  have z: "noise fallback_model 0 = 0"
    by (simp add: fallback_model_def AirQualityModel_init_def)
  have b: "regressor_in_use (AirQualityModel_init (Some (\<lambda>a. Inl ValueError)) (\<lambda>i. 0))
        = Some (\<lambda>a. Inl ValueError)"
    by (simp add: regressor_in_use_def AirQualityModel_init_def)
  from predict_outcomes
    [of fallback_model "\<lparr>ncols = 6, rows = [[28.6, 77.2, 9, 2, 1, 25]]\<rparr>" "\<lambda>a. Inl ValueError"] a z
  have first: "fst (predict \<lparr>ncols = 6, rows = [[28.6, 77.2, 9, 2, 1, 25]]\<rparr> fallback_model)
      = Inr [250]" by simp
  from predict_outcomes [of fallback_model "\<lparr>ncols = 1, rows = [[28.6]]\<rparr>" "\<lambda>a. Inl ValueError"] a
  have second: "predict \<lparr>ncols = 1, rows = [[28.6]]\<rparr> fallback_model
      = (Inl IndexError, fallback_model)" by simp
  from predict_outcomes
    [of "AirQualityModel_init (Some (\<lambda>a. Inl ValueError)) (\<lambda>i. 0)"
        "\<lparr>ncols = 6, rows = [[28.6, 77.2, 9, 2, 1, 25]]\<rparr>" "\<lambda>a. Inl ValueError"] b
  have third: "fst (predict \<lparr>ncols = 6, rows = [[28.6, 77.2, 9, 2, 1, 25]]\<rparr>
               (AirQualityModel_init (Some (\<lambda>a. Inl ValueError)) (\<lambda>i. 0))) = Inl ValueError"
    by simp
  from a first second b third show ?thesis by simp
qed

end
